theory Spec2Isabelle
  imports Complex_Main "HOL-Library.Sublist" "HOL-Library.Log_Nat"
begin

section \<open>JavaScript strings\<close>

text \<open>
  A string is a list of 8-bit characters, read as the code units U+0000 to U+00FF.
  The validator's console output and the PDDL sources are ASCII text; characters beyond
  U+00FF do not occur in the model.
\<close>

definition isDigit :: "char \<Rightarrow> bool" where
  \<comment> \<open>the class \<open>\d\<close> of a regular expression\<close>
  "isDigit c = (c \<in> set ''0123456789'')"

definition isLineTerminator :: "char \<Rightarrow> bool" where
  \<comment> \<open>the characters a regular expression's \<open>.\<close> does not match\<close>
  "isLineTerminator c = (c = CHR 0x0A \<or> c = CHR 0x0D)"

definition isWhiteSpace :: "char \<Rightarrow> bool" where
  \<comment> \<open>the class \<open>\s\<close>, and what \<open>trim\<close> strips: tab, LF, VT, FF, CR, space, no-break space\<close>
  "isWhiteSpace c =
     (c \<in> set [CHR 0x09, CHR 0x0A, CHR 0x0B, CHR 0x0C, CHR 0x0D, CHR 0x20, CHR 0xA0])"

primrec js_match :: "string \<Rightarrow> string \<Rightarrow> bool" where
  \<comment> \<open>\<open>s.match(pat)\<close> as a truth value, for a pattern string without metacharacters:
      the pattern occurs at some index of \<open>s\<close>\<close>
  "js_match [] pat = (pat = [])"
| "js_match (c # cs) pat = (prefix pat (c # cs) \<or> js_match cs pat)"

definition toLowerChar :: "char \<Rightarrow> char" where
  "toLowerChar c =
     (let n = (of_char c :: nat)
      in if (65 \<le> n \<and> n \<le> 90) \<or> (192 \<le> n \<and> n \<le> 222 \<and> n \<noteq> 215)
         then char_of (n + 32) else c)"

definition toLowerCase :: "string \<Rightarrow> string" where
  "toLowerCase s = map toLowerChar s"

definition trim :: "string \<Rightarrow> string" where
  "trim s = rev (dropWhile isWhiteSpace (rev (dropWhile isWhiteSpace s)))"

fun split_newline :: "string \<Rightarrow> string list" where
  \<comment> \<open>\<open>s.split('\n')\<close>: never the empty list\<close>
  "split_newline [] = [[]]"
| "split_newline (c # cs) =
     (if c = CHR 0x0A then [] # split_newline cs
      else (case split_newline cs of
              l # ls \<Rightarrow> (c # l) # ls
            | [] \<Rightarrow> [[c]]))"

section \<open>JavaScript numbers\<close>

text \<open>
  A JavaScript number is an IEEE 754 double: a finite value, one of the two infinities or
  NaN. A finite double is given by its value, a real; the two zeros are one value, which
  no comparison tells apart. \<open>roundToDouble\<close> is the rounding every operation ends with: to
  the nearest double, a tie to the one with the even significand, and to an infinity from
  \<open>2^1024 - 2^970\<close> on. For \<open>a > 0\<close>, \<open>binaryExponent a\<close> is the \<open>e\<close> with
  \<open>2^e \<le> a < 2^(e + 1)\<close>; doubles with that exponent are \<open>2^(e - 52)\<close> apart, and
  \<open>2^(-1074)\<close> apart below \<open>2^(-1022)\<close>.
\<close>

datatype JsNumber = Finite real | PosInfinity | NegInfinity | NaN

definition roundHalfEven :: "real \<Rightarrow> int" where
  "roundHalfEven x =
     (let f = \<lfloor>x\<rfloor>; r = x - of_int f
      in if r < 1 / 2 then f
         else if 1 / 2 < r then f + 1
         else if even f then f else f + 1)"

definition binaryExponent :: "real \<Rightarrow> int" where
  "binaryExponent a =
     (if 1 \<le> a then bitlen \<lfloor>a\<rfloor> - 1
      else (let k = bitlen \<lfloor>1 / a\<rfloor>
            in if 2 powi (1 - k) \<le> a then 1 - k else - k))"

definition roundToDouble :: "real \<Rightarrow> JsNumber" where
  "roundToDouble x =
     (if x = 0 then Finite 0
      else (let a = \<bar>x\<bar>;
                q = 2 powi (max (binaryExponent a) (- 1022) - 52);
                v = of_int (roundHalfEven (a / q)) * q
            in if 2 powi 1024 \<le> v then (if 0 < x then PosInfinity else NegInfinity)
               else Finite (if 0 < x then v else - v)))"

fun jsMinus :: "JsNumber \<Rightarrow> JsNumber \<Rightarrow> JsNumber" where
  \<comment> \<open>the operator \<open>-\<close>\<close>
  "jsMinus (Finite a) (Finite b) = roundToDouble (a - b)"
| "jsMinus (Finite a) PosInfinity = NegInfinity"
| "jsMinus (Finite a) NegInfinity = PosInfinity"
| "jsMinus PosInfinity (Finite b) = PosInfinity"
| "jsMinus PosInfinity NegInfinity = PosInfinity"
| "jsMinus NegInfinity (Finite b) = NegInfinity"
| "jsMinus NegInfinity PosInfinity = NegInfinity"
| "jsMinus PosInfinity PosInfinity = NaN"
| "jsMinus NegInfinity NegInfinity = NaN"
| "jsMinus NaN b = NaN"
| "jsMinus a NaN = NaN"

fun mathAbs :: "JsNumber \<Rightarrow> JsNumber" where
  "mathAbs (Finite a) = Finite \<bar>a\<bar>"
| "mathAbs PosInfinity = PosInfinity"
| "mathAbs NegInfinity = PosInfinity"
| "mathAbs NaN = NaN"

fun jsLess :: "JsNumber \<Rightarrow> JsNumber \<Rightarrow> bool" where
  \<comment> \<open>the operator \<open><\<close>: false when an operand is NaN\<close>
  "jsLess (Finite a) (Finite b) = (a < b)"
| "jsLess (Finite a) PosInfinity = True"
| "jsLess NegInfinity (Finite b) = True"
| "jsLess NegInfinity PosInfinity = True"
| "jsLess a b = False"

definition digit_val :: "char \<Rightarrow> nat" where
  "digit_val c = of_char c - 48"

definition nat_of_digits :: "string \<Rightarrow> nat" where
  "nat_of_digits ds = foldl (\<lambda>a c. 10 * a + digit_val c) 0 ds"

definition scale10 :: "real \<Rightarrow> int \<Rightarrow> real" where
  "scale10 m e = (if 0 \<le> e then m * 10 ^ nat e else m / 10 ^ nat (- e))"

definition exponentPart :: "string \<Rightarrow> int" where
  \<comment> \<open>the value of an ExponentPart (\<open>e\<close> or \<open>E\<close>, an optional sign, digits) at the
      start of \<open>s\<close>; 0 when there is none\<close>
  "exponentPart s =
     (case s of
        [] \<Rightarrow> 0
      | c # r \<Rightarrow>
          if c = CHR ''e'' \<or> c = CHR ''E'' then
            (case r of
               [] \<Rightarrow> 0
             | sg # r' \<Rightarrow>
                 if sg = CHR ''-'' then
                   (if takeWhile isDigit r' = [] then 0
                    else - int (nat_of_digits (takeWhile isDigit r')))
                 else if sg = CHR ''+'' then int (nat_of_digits (takeWhile isDigit r'))
                 else int (nat_of_digits (takeWhile isDigit r)))
          else 0)"

definition decimalValue :: "string \<Rightarrow> real option" where
  \<comment> \<open>the mathematical value of the longest prefix of \<open>s\<close> that is an unsigned decimal
      literal: digits with an optional fraction, or a dot and digits, and an optional
      exponent; \<open>None\<close> when no prefix is one\<close>
  "decimalValue s =
     (let ip = takeWhile isDigit s; r = dropWhile isDigit s
      in if ip \<noteq> [] then
           (case r of
              [] \<Rightarrow> Some (real (nat_of_digits ip))
            | c # r' \<Rightarrow>
                if c = CHR ''.'' then
                  (let fp = takeWhile isDigit r'
                   in Some (scale10
                        (real (nat_of_digits ip) + real (nat_of_digits fp) / 10 ^ length fp)
                        (exponentPart (dropWhile isDigit r'))))
                else Some (scale10 (real (nat_of_digits ip)) (exponentPart r)))
         else
           (case r of
              [] \<Rightarrow> None
            | c # r' \<Rightarrow>
                if c = CHR ''.'' \<and> takeWhile isDigit r' \<noteq> [] then
                  (let fp = takeWhile isDigit r'
                   in Some (scale10 (real (nat_of_digits fp) / 10 ^ length fp)
                        (exponentPart (dropWhile isDigit r'))))
                else None))"

definition parseFloat :: "string \<Rightarrow> JsNumber" where
  \<comment> \<open>The builtin: leading white space is skipped, then the longest prefix that is a
      decimal literal (an optional sign, then \<open>Infinity\<close> or a decimal number) is read and
      its value rounded to a double; NaN when no prefix is one. The text after the literal
      is ignored.\<close>
  "parseFloat inputString =
     (let trimmed = dropWhile isWhiteSpace inputString;
          negative = (case trimmed of [] \<Rightarrow> False | c # r \<Rightarrow> c = CHR ''-'');
          unsigned = (case trimmed of
                        [] \<Rightarrow> []
                      | c # r \<Rightarrow> if c = CHR ''-'' \<or> c = CHR ''+'' then r else trimmed)
      in if prefix ''Infinity'' unsigned
         then (if negative then NegInfinity else PosInfinity)
         else (case decimalValue unsigned of
                 None \<Rightarrow> NaN
               | Some v \<Rightarrow> roundToDouble (if negative then - v else v)))"

section \<open>The workspace's files\<close>

datatype FileStatus = Dirty | Parsed | Validating | Validated

text \<open>
  Modelled from the spec: the classes \<open>PlanStep\<close>, \<open>FileInfo\<close>, \<open>ProblemInfo\<close> and
  \<open>PlanInfo\<close> are declared in common/src, which is not among the sources; the records hold
  the fields the validation code reads and writes (spec, section 3). \<open>ftext\<close> is the
  field \<open>text\<close>, \<open>steps\<close> is what \<open>getSteps()\<close> returns and \<open>startTime\<close> what
  \<open>getStartTime()\<close> returns, the value of a finite number.
\<close>

record PlanStep =
  startTime :: real
  lineIndex :: nat

record FileInfo =
  fileUri :: string
  name :: string
  ftext :: string
  status :: FileStatus

record ProblemInfo = FileInfo +
  domainName :: string

record PlanInfo = FileInfo +
  problemName :: string
  steps :: "PlanStep list"

section \<open>Diagnostics and validation outcomes (PlanValidator.ts)\<close>

datatype DiagnosticSeverity = Error | Warning | Information | Hint

record Range_t =
  startLine :: nat
  startCharacter :: nat
  endLine :: nat
  endCharacter :: nat

record Diagnostic =
  range_d :: Range_t
  message :: string
  severity :: DiagnosticSeverity

record JsError =
  errName :: string
  errMessage :: string

record PlanValidationOutcome =
  planInfo :: PlanInfo
  diagnostics :: "Diagnostic list"
  error :: "string option"

definition createRangeFromLine :: "nat \<Rightarrow> Range_t" where
  "createRangeFromLine errorLine =
     \<lparr>startLine = errorLine, startCharacter = 0, endLine = errorLine, endCharacter = 100\<rparr>"

definition createDiagnostic :: "nat \<Rightarrow> string \<Rightarrow> DiagnosticSeverity \<Rightarrow> Diagnostic" where
  "createDiagnostic errorLine err sev =
     \<lparr>range_d = createRangeFromLine errorLine, message = err, severity = sev\<rparr>"

definition getError :: "PlanValidationOutcome \<Rightarrow> string option" where
  "getError outcome = error outcome"

definition getDiagnostics :: "PlanValidationOutcome \<Rightarrow> (string \<times> Diagnostic list) list" where
  \<comment> \<open>a Map with the single key \<open>planInfo.fileUri\<close>\<close>
  "getDiagnostics outcome = [(fileUri (planInfo outcome), diagnostics outcome)]"

definition invalidPlanDescription :: "PlanInfo \<Rightarrow> PlanValidationOutcome" where
  "invalidPlanDescription p =
     \<lparr>planInfo = p,
      diagnostics = [createDiagnostic 0 ''Invalid plan description.'' Error],
      error = Some ''Invalid plan description.''\<rparr>"

definition valid :: "PlanInfo \<Rightarrow> PlanValidationOutcome" where
  \<comment> \<open>the constructor is called with \<open>undefined\<close>, so its default \<open>null\<close> applies\<close>
  "valid p = \<lparr>planInfo = p, diagnostics = [], error = None\<rparr>"

definition failed :: "PlanInfo \<Rightarrow> JsError \<Rightarrow> PlanValidationOutcome" where
  "failed p e =
     (let msg = ''Validate tool failed. '' @ errMessage e
      in \<lparr>planInfo = p, diagnostics = [createDiagnostic 0 msg Error], error = Some msg\<rparr>)"

text \<open>
  Modelled from the spec: \<open>PlanStep.equalsWithin\<close> (common/src/PlanStep, not among the
  sources) is the tolerance-based equality \<open>|a - b| < \<epsilon>\<close> of section 3, computed on
  JavaScript numbers: \<open>Math.abs(a - b) < epsilon\<close>.
\<close>

definition equalsWithin :: "JsNumber \<Rightarrow> JsNumber \<Rightarrow> JsNumber \<Rightarrow> bool" where
  "equalsWithin a b epsilon = jsLess (mathAbs (jsMinus a b)) epsilon"

definition failedAtTime :: "PlanInfo \<Rightarrow> JsNumber \<Rightarrow> string list \<Rightarrow> PlanValidationOutcome" where
  \<comment> \<open>the literal \<open>1e-4\<close> is the double nearest to 1/10000\<close>
  "failedAtTime p timeStamp repairHints =
     (let errorLine =
            (case find (\<lambda>step. equalsWithin (Finite (startTime step)) timeStamp
                                  (roundToDouble (1 / 10000)))
                       (steps p) of
               Some stepAtTimeStamp \<Rightarrow> lineIndex stepAtTimeStamp
             | None \<Rightarrow> 0)
      in \<lparr>planInfo = p,
          diagnostics =
            map (\<lambda>hint. \<lparr>range_d = createRangeFromLine errorLine, message = hint,
                          severity = Warning\<rparr>) repairHints,
          error = None\<rparr>)"

definition unknown :: "PlanInfo \<Rightarrow> PlanValidationOutcome" where
  "unknown p =
     \<lparr>planInfo = p,
      diagnostics =
        [\<lparr>range_d = createRangeFromLine 0,
          message = ''Unknown error. Run the 'PDDL: Validate plan' command for more information.'',
          severity = Warning\<rparr>],
      error = Some ''Unknown error.''\<rparr>"

section \<open>Reading the validator's output (PlanValidator.analyzeOutput)\<close>

definition happeningPrefix :: string where
  "happeningPrefix = ''Checking next happening (time ''"

text \<open>
  The pattern \<open>/Checking next happening \(time (\d+.\d+)\)/g\<close> is matched the way a
  backtracking engine does it. Each \<open>\d+\<close> is greedy: it takes the whole run of digits
  first and gives them back one at a time while the rest of the pattern fails. The dot is
  not escaped in the source, so it matches any character but a line terminator.
  \<open>closeAfterDigits n s\<close> is the second \<open>\d+\<close> on \<open>n\<close> digits, then \<open>\)\<close>;
  \<open>timeGroup k s\<close> is the first \<open>\d+\<close> on \<open>k\<close> digits, then the dot and the rest.
  Both return the text they matched and the text after the match.
\<close>

fun closeAfterDigits :: "nat \<Rightarrow> string \<Rightarrow> (string \<times> string) option" where
  "closeAfterDigits 0 s = None"
| "closeAfterDigits (Suc n) s =
     (case drop (Suc n) s of
        [] \<Rightarrow> closeAfterDigits n s
      | c # rest \<Rightarrow>
          if c = CHR 0x29 then Some (take (Suc n) s, rest) else closeAfterDigits n s)"

fun timeGroup :: "nat \<Rightarrow> string \<Rightarrow> (string \<times> string) option" where
  "timeGroup 0 s = None"
| "timeGroup (Suc k) s =
     (case drop (Suc k) s of
        [] \<Rightarrow> timeGroup k s
      | c # r \<Rightarrow>
          if isLineTerminator c then timeGroup k s
          else (case closeAfterDigits (length (takeWhile isDigit r)) r of
                  Some (d2, rest) \<Rightarrow> Some (take (Suc k) s @ c # d2, rest)
                | None \<Rightarrow> timeGroup k s))"

definition matchHappening :: "string \<Rightarrow> (string \<times> string) option" where
  \<comment> \<open>the whole pattern at the start of \<open>s\<close>: the capture group and the text after the match\<close>
  "matchHappening s =
     (if prefix happeningPrefix s
      then (let t = drop (length happeningPrefix) s
            in timeGroup (length (takeWhile isDigit t)) t)
      else None)"

lemma closeAfterDigits_shorter:
  "closeAfterDigits n s = Some (d, rest) \<Longrightarrow> length rest < length s"
proof (induction n)
  case 0
  then show ?case by simp
next
  case (Suc n)
  show ?case
  proof (cases "drop (Suc n) s")
    case Nil
    with Suc show ?thesis by simp
  next
    case (Cons c r)
    have "length (drop (Suc n) s) \<le> length s" by simp
    with Cons have "length r < length s" by simp
    with Suc Cons show ?thesis by (auto split: if_splits)
  qed
qed

lemma timeGroup_shorter:
  "timeGroup k s = Some (cap, rest) \<Longrightarrow> length rest < length s"
proof (induction k)
  case 0
  then show ?case by simp
next
  case (Suc k)
  show ?case
  proof (cases "drop (Suc k) s")
    case Nil
    with Suc show ?thesis by simp
  next
    case (Cons c r)
    have "length (drop (Suc k) s) \<le> length s" by simp
    with Cons have r: "length r < length s" by simp
    show ?thesis
    proof (cases "isLineTerminator c")
      case True
      with Suc Cons show ?thesis by simp
    next
      case False
      show ?thesis
      proof (cases "closeAfterDigits (length (takeWhile isDigit r)) r")
        case None
        with Suc Cons False show ?thesis by simp
      next
        case (Some a)
        obtain d2 rest' where a: "a = (d2, rest')" by (cases a)
        from Some a have "length rest' < length r" by (auto dest: closeAfterDigits_shorter)
        moreover from Suc.prems Cons False Some a have "rest = rest'" by simp
        ultimately show ?thesis using r by simp
      qed
    qed
  qed
qed

lemma matchHappening_shorter:
  "matchHappening s = Some (cap, rest) \<Longrightarrow> length rest < length s"
proof -
  assume m: "matchHappening s = Some (cap, rest)"
  then have "timeGroup (length (takeWhile isDigit (drop (length happeningPrefix) s)))
               (drop (length happeningPrefix) s) = Some (cap, rest)"
    by (simp add: matchHappening_def Let_def split: if_splits)
  then have "length rest < length (drop (length happeningPrefix) s)"
    by (rule timeGroup_shorter)
  then show ?thesis by simp
qed

text \<open>
  The loop \<open>while ((result = failurePattern.exec(output)) !== null)\<close>: with the flag
  \<open>g\<close>, each call searches from the end of the previous match. \<open>execAll\<close> lists the
  capture groups of the successive matches.
\<close>

function execAll :: "string \<Rightarrow> string list" where
  "execAll [] = []"
| "execAll (c # cs) =
     (case matchHappening (c # cs) of
        Some (cap, rest) \<Rightarrow> cap # execAll rest
      | None \<Rightarrow> execAll cs)"
  by pat_completeness auto
termination
  by (relation "measure length") (auto dest: matchHappening_shorter)

definition lastTimeStamp :: "string \<Rightarrow> JsNumber" where
  \<comment> \<open>\<open>timeStamp\<close> after the loop: it starts at -1 and every match assigns it\<close>
  "lastTimeStamp output = foldl (\<lambda>timeStamp cap. parseFloat cap) (Finite (- 1)) (execAll output)"

definition adviceStart :: string where
  "adviceStart = ''Plan Repair Advice:''"

definition adviceEnd :: string where
  "adviceEnd = ''Failed plans:''"

text \<open>
  The pattern \<open>/Plan Repair Advice:([\s\S]+)Failed plans:/\<close>: the group is greedy, so
  it first takes everything up to the end of the output and gives characters back until
  \<open>Failed plans:\<close> follows; it keeps at least one character. The engine tries the
  start positions from left to right.
\<close>

fun greedyUntil :: "nat \<Rightarrow> string \<Rightarrow> string option" where
  "greedyUntil 0 r = None"
| "greedyUntil (Suc n) r =
     (if prefix adviceEnd (drop (Suc n) r) then Some (take (Suc n) r) else greedyUntil n r)"

fun matchAdvice :: "string \<Rightarrow> string option" where
  "matchAdvice [] = None"
| "matchAdvice (c # cs) =
     (if prefix adviceStart (c # cs)
      then (let r = drop (length adviceStart) (c # cs)
            in case greedyUntil (length r) r of
                 Some g \<Rightarrow> Some g
               | None \<Rightarrow> matchAdvice cs)
      else matchAdvice cs)"

definition analyzeOutput :: "PlanInfo \<Rightarrow> JsError option \<Rightarrow> string \<Rightarrow> PlanValidationOutcome" where
  "analyzeOutput p err output =
     (case err of
        Some e \<Rightarrow> failed p e
      | None \<Rightarrow>
          if js_match output ''Plan failed to execute'' \<or> js_match output ''Goal not satisfied''
          then (let timeStamp = lastTimeStamp output
                in case matchAdvice output of
                     Some g \<Rightarrow> failedAtTime p timeStamp (split_newline (trim g))
                   | None \<Rightarrow>
                       failedAtTime p timeStamp
                         [''Unidentified error. Run the 'PDDL: Validate plan' command for more info.''])
          else if js_match output ''Bad plan description!'' then invalidPlanDescription p
          else if js_match output ''Plan valid'' then valid p
          else unknown p)"

section \<open>The workspace (common/src/workspace-model)\<close>

text \<open>
  A file of the workspace is a \<open>DomainInfo\<close>, a \<open>ProblemInfo\<close>, a \<open>PlanInfo\<close> or a
  file whose header does not parse; \<open>instanceof\<close> and the tests \<open>isDomain()\<close>,
  \<open>isProblem()\<close>, \<open>isPlan()\<close> and \<open>isUnknownPddl()\<close> are the cases of the datatype.
  The workspace owns every file object, keyed by its URI; the code's writes to a file
  object (\<open>setStatus\<close>) are writes to the workspace's entry of that URI.
\<close>

datatype PddlFile =
    DomainFile FileInfo
  | ProblemFile ProblemInfo
  | PlanFile PlanInfo
  | UnknownFile FileInfo

fun isDomain :: "PddlFile \<Rightarrow> bool" where
  "isDomain (DomainFile d) = True"
| "isDomain f = False"

fun isProblem :: "PddlFile \<Rightarrow> bool" where
  "isProblem (ProblemFile p) = True"
| "isProblem f = False"

fun isPlan :: "PddlFile \<Rightarrow> bool" where
  "isPlan (PlanFile p) = True"
| "isPlan f = False"

fun isUnknownPddl :: "PddlFile \<Rightarrow> bool" where
  "isUnknownPddl (UnknownFile u) = True"
| "isUnknownPddl f = False"

fun fileUriOf :: "PddlFile \<Rightarrow> string" where
  "fileUriOf (DomainFile d) = fileUri d"
| "fileUriOf (ProblemFile p) = fileUri p"
| "fileUriOf (PlanFile p) = fileUri p"
| "fileUriOf (UnknownFile u) = fileUri u"

fun nameOf :: "PddlFile \<Rightarrow> string" where
  "nameOf (DomainFile d) = name d"
| "nameOf (ProblemFile p) = name p"
| "nameOf (PlanFile p) = name p"
| "nameOf (UnknownFile u) = name u"

fun textOf :: "PddlFile \<Rightarrow> string" where
  "textOf (DomainFile d) = ftext d"
| "textOf (ProblemFile p) = ftext p"
| "textOf (PlanFile p) = ftext p"
| "textOf (UnknownFile u) = ftext u"

fun getStatus :: "PddlFile \<Rightarrow> FileStatus" where
  "getStatus (DomainFile d) = status d"
| "getStatus (ProblemFile p) = status p"
| "getStatus (PlanFile p) = status p"
| "getStatus (UnknownFile u) = status u"

fun setStatus :: "FileStatus \<Rightarrow> PddlFile \<Rightarrow> PddlFile" where
  "setStatus s (DomainFile d) = DomainFile (d\<lparr>status := s\<rparr>)"
| "setStatus s (ProblemFile p) = ProblemFile (p\<lparr>status := s\<rparr>)"
| "setStatus s (PlanFile p) = PlanFile (p\<lparr>status := s\<rparr>)"
| "setStatus s (UnknownFile u) = UnknownFile (u\<lparr>status := s\<rparr>)"

text \<open>
  Modelled from the spec: the class \<open>PddlWorkspace\<close> and its folders are declared in
  common/src/workspace-model, which is not among the sources. The spec (sections 3 and 4.4)
  gives: the workspace maintains folders, each grouping the files that share a containing
  directory, in the order they were added; \<open>getAllFilesIf\<close> scans all files across all
  folders; the folder of a file is the one of its containing directory; within a folder,
  the domain files for a problem are those whose declared name case-insensitively equals
  the problem's referenced domain name; \<open>PddlWorkspace.getDomainFileFor\<close> returns the
  single match and signals zero or several matches by returning no file.
\<close>

record PddlWorkspace =
  folders :: "(string \<times> PddlFile list) list"

definition allFiles :: "PddlWorkspace \<Rightarrow> PddlFile list" where
  "allFiles ws = concat (map snd (folders ws))"

definition getAllFilesIf :: "PddlWorkspace \<Rightarrow> (PddlFile \<Rightarrow> bool) \<Rightarrow> PddlFile list" where
  "getAllFilesIf ws predicate = filter predicate (allFiles ws)"

definition getFolderUri :: "string \<Rightarrow> string" where
  \<comment> \<open>the containing directory: the URI up to its last slash\<close>
  "getFolderUri documentUri = rev (tl (dropWhile (\<lambda>c. c \<noteq> CHR ''/'') (rev documentUri)))"

definition getFolderOf :: "PddlWorkspace \<Rightarrow> string \<Rightarrow> PddlFile list option" where
  \<comment> \<open>\<open>folders.get(getFolderUri(fileUri))\<close>: the files of the folder, \<open>None\<close> for undefined\<close>
  "getFolderOf ws uri = map_of (folders ws) (getFolderUri uri)"

definition getDomainFilesFor :: "PddlFile list \<Rightarrow> ProblemInfo \<Rightarrow> FileInfo list" where
  "getDomainFilesFor files problemFile =
     concat (map (\<lambda>f. case f of
                         DomainFile d \<Rightarrow>
                           if toLowerCase (name d) = toLowerCase (domainName problemFile)
                           then [d] else []
                       | _ \<Rightarrow> []) files)"

definition workspaceGetDomainFileFor :: "PddlWorkspace \<Rightarrow> ProblemInfo \<Rightarrow> FileInfo option" where
  \<comment> \<open>\<open>PddlWorkspace.getDomainFileFor\<close>\<close>
  "workspaceGetDomainFileFor ws problemFile =
     (case getFolderOf ws (fileUri problemFile) of
        None \<Rightarrow> None
      | Some files \<Rightarrow>
          (case getDomainFilesFor files problemFile of
             [d] \<Rightarrow> Some d
           | _ \<Rightarrow> None))"

definition updateFile :: "string \<Rightarrow> (PddlFile \<Rightarrow> PddlFile) \<Rightarrow> PddlWorkspace \<Rightarrow> PddlWorkspace" where
  \<comment> \<open>a write to the file object of the given URI\<close>
  "updateFile uri g ws =
     ws\<lparr>folders :=
          map (\<lambda>(folderUri, files).
                 (folderUri, map (\<lambda>f. if fileUriOf f = uri then g f else f) files))
              (folders ws)\<rparr>"

section \<open>Validating a plan (PlanValidator.validatePlanAndReportDiagnostics)\<close>

text \<open>
  The function runs to its end without suspending (\<open>spawnSync\<close> blocks), so its effect is
  its outcome and the calls of its two callbacks, in order. An exception thrown inside it
  (a property read on undefined) rejects its promise: \<open>Inl TypeError\<close>. The validator
  process belongs to the environment: \<open>child\<close> is what \<open>spawnSync\<close> returned, with
  \<open>None\<close> for a null \<open>stdout\<close>. The lines written to the output channel are not part of
  the model.
\<close>

datatype exn = TypeError

datatype callback =
    OnSuccess "(string \<times> Diagnostic list) list"
  | OnError string

record SpawnSyncReturns =
  childError :: "JsError option"
  childStdout :: "string option"

definition findProblemFile :: "PddlFile list \<Rightarrow> PlanInfo \<Rightarrow> ProblemInfo option" where
  \<comment> \<open>the \<open>forEach\<close> over the folder's files: a later match replaces an earlier one\<close>
  "findProblemFile files p =
     foldl (\<lambda>problemFileInfo v.
              case v of
                ProblemFile problemInfo \<Rightarrow>
                  if toLowerCase (name problemInfo) = toLowerCase (problemName p)
                  then Some problemInfo else problemFileInfo
              | _ \<Rightarrow> problemFileInfo)
           None files"

definition validatePlanAndReportDiagnostics ::
  "PddlWorkspace \<Rightarrow> SpawnSyncReturns \<Rightarrow> PlanInfo \<Rightarrow> exn + (PlanValidationOutcome \<times> callback list)"
where
  "validatePlanAndReportDiagnostics ws child p =
     (case getFolderOf ws (fileUri p) of
        None \<Rightarrow> Inl TypeError
      | Some files \<Rightarrow>
          (case findProblemFile files p of
             None \<Rightarrow>
               (let outcome = failed p
                      \<lparr>errName = ''Error'',
                       errMessage = ''No problem file with name '(problem '' @ problemName p
                         @ CHR 0x27 # '') and located in the same folder as the plan is not open in the editor.''\<rparr>
                in Inr (outcome, [OnSuccess (getDiagnostics outcome)]))
           | Some problemFileInfo \<Rightarrow>
               (case workspaceGetDomainFileFor ws problemFileInfo of
                  None \<Rightarrow>
                    (let outcome = failed p
                           \<lparr>errName = ''Error'',
                            errMessage = ''No domain file corresponding to problem '' @ CHR 0x27 # name problemFileInfo
                              @ CHR 0x27 # '' and located in the same folder is open in the editor.''\<rparr>
                     in Inr (outcome, [OnSuccess (getDiagnostics outcome)]))
                | Some domainFileInfo \<Rightarrow>
                    (case childStdout child of
                       None \<Rightarrow> Inl TypeError
                     | Some output \<Rightarrow>
                         (let outcome = analyzeOutput p (childError child) output
                          in case childError child of
                               Some e \<Rightarrow> Inr (outcome, [OnError (errName e)])
                             | None \<Rightarrow> Inr (outcome, [OnSuccess (getDiagnostics outcome)]))))))"

section \<open>The validation scheduler (Diagnostics.ts)\<close>

text \<open>
  Modelled from the spec: \<open>Parser.stripComments\<close> (common/src/parser) and
  \<open>PDDLParserSettings\<close> (common/src/Settings) are not among the sources. Section 4.1 has
  a comment run from \<open>;\<close> to the end of its line; \<open>stripComments\<close> leaves such runs out.
  Section 4.5 has the configurable delay of the debounce, which the code reads from the
  settings' field \<open>delayInSecondsBeforeParsing\<close>; here a whole number of seconds, with
  \<open>None\<close> for a setting that is not there. Section 4.6 has the configured path of the
  parser (an executable or the URL of a service), its option string and its command-line
  pattern: the fields \<open>executableOrService\<close>, \<open>executableOptions\<close> and \<open>problemPattern\<close>,
  with \<open>None\<close> for null or undefined. The fields \<open>serviceAuthentication...\<close> are only
  handed on to the service and are left out.
\<close>

fun stripFrom :: "bool \<Rightarrow> string \<Rightarrow> string" where
  "stripFrom inComment [] = []"
| "stripFrom inComment (c # cs) =
     (if c = CHR 0x0A then c # stripFrom False cs
      else if inComment then stripFrom True cs
      else if c = CHR '';'' then stripFrom True cs
      else c # stripFrom False cs)"

definition stripComments :: "string \<Rightarrow> string" where
  "stripComments pddlText = stripFrom False pddlText"

record PDDLParserSettings =
  delayInSecondsBeforeParsing :: "nat option"
  executableOrService :: "string option"
  executableOptions :: "string option"
  problemPattern :: "string option"

text \<open>
  Modelled from the spec: the classes \<open>ValidatorService\<close> and \<open>ValidatorExecutable\<close> are
  not among the sources. Section 4.6 has the two implementations of the validator and the
  key of the cached one: transport kind, path and option string. A validator holds the
  arguments of its constructor: \<open>path\<close>, and for an executable \<open>syntax\<close> and
  \<open>customPattern\<close>.
\<close>

datatype Validator =
    ValidatorService string
  | ValidatorExecutable string "string option" "string option"

fun pathOf :: "Validator \<Rightarrow> string" where
  "pathOf (ValidatorService path) = path"
| "pathOf (ValidatorExecutable path options customPattern) = path"

text \<open>
  The state of a \<open>Diagnostics\<close> object: its workspace, the diagnostic collection of
  the editor (a map from the file's URI to the diagnostics shown for it), the handle of the
  timer it started last (\<open>None\<close> while the field is undefined), the parser settings and
  the validator it created last (\<open>None\<close> while the field is undefined).
  \<open>Validator.createRange\<close> and \<open>PddlWorkspace.getFileName\<close> are not among the sources
  and the spec does not describe them: the functions that call them take them as the
  parameters \<open>createRange\<close> and \<open>getFileName\<close>.
\<close>

record Diagnostics =
  pddlWorkspace :: PddlWorkspace
  diagnosticCollection :: "string \<rightharpoonup> Diagnostic list"
  timeout :: "nat option"
  pddlParserSettings :: PDDLParserSettings
  validator :: "Validator option"

definition defaultTimerDelayInSeconds :: nat where
  "defaultTimerDelayInSeconds = 3"

definition setFileStatus :: "string \<Rightarrow> FileStatus \<Rightarrow> Diagnostics \<Rightarrow> Diagnostics" where
  \<comment> \<open>\<open>fileInfo.setStatus(s)\<close> on the file object of that URI\<close>
  "setFileStatus uri s this = this\<lparr>pddlWorkspace := updateFile uri (setStatus s) (pddlWorkspace this)\<rparr>"

definition sendDiagnostic ::
  "(nat \<Rightarrow> nat \<Rightarrow> Range_t) \<Rightarrow> Diagnostics \<Rightarrow> string \<Rightarrow> string \<Rightarrow> DiagnosticSeverity \<Rightarrow> Diagnostics"
where
  "sendDiagnostic createRange this uri msg sev =
     this\<lparr>diagnosticCollection :=
            (diagnosticCollection this)
              (uri \<mapsto> [\<lparr>range_d = createRange 0 0, message = msg, severity = sev\<rparr>])\<rparr>"

definition sendDiagnosticInfo ::
  "(nat \<Rightarrow> nat \<Rightarrow> Range_t) \<Rightarrow> Diagnostics \<Rightarrow> string \<Rightarrow> string \<Rightarrow> Diagnostics"
where
  "sendDiagnosticInfo createRange this uri msg = sendDiagnostic createRange this uri msg Information"

definition clearDiagnostics :: "Diagnostics \<Rightarrow> string \<Rightarrow> Diagnostics" where
  "clearDiagnostics this uri = this\<lparr>diagnosticCollection := (diagnosticCollection this)(uri := None)\<rparr>"

definition firstLineOf :: "string \<Rightarrow> string" where
  \<comment> \<open>\<open>Parser.stripComments(text).replace(/^\s+/g, '').split('\n')[0]\<close>\<close>
  "firstLineOf t =
     (case split_newline (dropWhile isWhiteSpace (stripComments t)) of
        l # ls \<Rightarrow> l
      | [] \<Rightarrow> ''undefined'')"

definition validateUnknownFile ::
  "(nat \<Rightarrow> nat \<Rightarrow> Range_t) \<Rightarrow> Diagnostics \<Rightarrow> PddlFile \<Rightarrow> Diagnostics"
where
  "validateUnknownFile createRange this fileInfo =
     (let this1 = setFileStatus (fileUriOf fileInfo) Validating this;
          this2 =
            (if length (textOf fileInfo) > 0
             then sendDiagnostic createRange this1 (fileUriOf fileInfo)
                    (''Cannot recognize whether this is a domain or problem: ''
                       @ firstLineOf (textOf fileInfo))
                    Error
             else clearDiagnostics this1 (fileUriOf fileInfo))
      in setFileStatus (fileUriOf fileInfo) Validated this2)"

fun join :: "string \<Rightarrow> string list \<Rightarrow> string" where
  "join sep [] = []"
| "join sep [x] = x"
| "join sep (x # y # ys) = x @ sep @ join sep (y # ys)"

definition getDomainFileFor ::
  "(nat \<Rightarrow> nat \<Rightarrow> Range_t) \<Rightarrow> (string \<Rightarrow> string) \<Rightarrow> Diagnostics \<Rightarrow> ProblemInfo
     \<Rightarrow> exn + (FileInfo option \<times> Diagnostics)"
where
  "getDomainFileFor createRange getFileName this problemFile =
     (case map_of (folders (pddlWorkspace this)) (getFolderUri (fileUri problemFile)) of
        None \<Rightarrow> Inl TypeError
      | Some files \<Rightarrow>
          (let domainFiles = getDomainFilesFor files problemFile
           in if length domainFiles > 1 then
                (let msg = ''There are multiple candidate domains with name ''
                             @ domainName problemFile @ '': ''
                             @ join '', '' (map (\<lambda>d. getFileName (fileUri d)) domainFiles);
                     this1 = sendDiagnosticInfo createRange this (fileUri problemFile) msg
                 in Inr (None, setFileStatus (fileUri problemFile) Validated this1))
              else if length domainFiles = 0 then
                (let msg = ''There are no domains open in the same folder with name (domain ''
                             @ CHR 0x27 # domainName problemFile
                             @ CHR 0x27 # '') open in the editor.'';
                     this1 = sendDiagnosticInfo createRange this (fileUri problemFile) msg
                 in Inr (None, setFileStatus (fileUri problemFile) Validated this1))
              else (case domainFiles of
                      d # ds \<Rightarrow> Inr (Some d, this)
                    | [] \<Rightarrow> Inr (None, this))))"

section \<open>The debounce timer (Diagnostics.scheduleValidation)\<close>

text \<open>
  The timers of the runtime: \<open>setTimeout\<close> registers a callback under a fresh handle, due
  after the delay; \<open>clearTimeout\<close> removes the timer of a handle and does nothing for a
  handle whose timer has fired or was cleared. Time is in milliseconds; \<open>now\<close> is the time
  of the call. Every timer of this table runs \<open>validateAllDirty\<close>: no other callback is
  passed to \<open>setTimeout\<close> in Diagnostics.ts.
\<close>

record Timers =
  pending :: "(nat \<times> nat) list"
  nextHandle :: nat

definition setTimeout :: "nat \<Rightarrow> nat \<Rightarrow> Timers \<Rightarrow> nat \<times> Timers" where
  "setTimeout ms now T =
     (nextHandle T,
      T\<lparr>pending := pending T @ [(nextHandle T, now + ms)], nextHandle := Suc (nextHandle T)\<rparr>)"

definition clearTimeout :: "nat \<Rightarrow> Timers \<Rightarrow> Timers" where
  "clearTimeout h T = T\<lparr>pending := filter (\<lambda>(h', due). h' \<noteq> h) (pending T)\<rparr>"

definition cancelScheduledValidation :: "Diagnostics \<Rightarrow> Timers \<Rightarrow> Timers" where
  "cancelScheduledValidation this T =
     (case timeout this of
        Some h \<Rightarrow> clearTimeout h T
      | None \<Rightarrow> T)"

definition timerDelayInSeconds :: "Diagnostics \<Rightarrow> nat" where
  \<comment> \<open>\<open>delayInSecondsBeforeParsing || defaultTimerDelayInSeconds\<close>: undefined and 0 are falsy\<close>
  "timerDelayInSeconds this =
     (case delayInSecondsBeforeParsing (pddlParserSettings this) of
        None \<Rightarrow> defaultTimerDelayInSeconds
      | Some d \<Rightarrow> if d = 0 then defaultTimerDelayInSeconds else d)"

definition scheduleValidation :: "nat \<Rightarrow> Diagnostics \<times> Timers \<Rightarrow> Diagnostics \<times> Timers" where
  "scheduleValidation now s =
     (case s of
        (this, T) \<Rightarrow>
          (let T1 = cancelScheduledValidation this T;
               (h, T2) = setTimeout (timerDelayInSeconds this * 1000) now T1
           in (this\<lparr>timeout := Some h\<rparr>, T2)))"

section \<open>One validation pass (Diagnostics.validateAllDirty)\<close>

text \<open>
  What a pass does outside the \<open>Diagnostics\<close> object is listed in order: the call of
  \<open>validator.validate\<close> (with the URIs of the domain and of the problems, and the flag
  \<open>scheduleFurtherValidation\<close> its two callbacks hold), the messages shown to the user,
  the calls of \<open>suggestNewParserConfiguration\<close>, and a rejected promise nobody handles.
  Lines written to the console are left out.
\<close>

datatype effect =
    ValidatorValidate Validator string "string list" bool
  | ShowErrorMessage string
  | SuggestNewParserConfiguration bool
  | UnhandledRejection exn

text \<open>
  What a pass reads from outside: the path \<open>getValidatorPath()\<close> returns, what
  \<open>spawnSync\<close> returns, the callbacks \<open>validator.validate\<close> invokes before it returns
  (none when the validator answers later), the time on the clock when these callbacks run and
  when the plan validator's callbacks run, and the constants \<open>CONF_PDDL\<close> and
  \<open>VALIDATION_PATH\<close> of ../configuration, which is not among the sources.
\<close>

record Environment =
  validatorPath :: string
  spawnSyncReturns :: SpawnSyncReturns
  validatorCallbacks :: "callback list"
  clockAtValidate :: nat
  clockAfterSpawn :: nat
  confPddl :: string
  validationPath :: string

record Run =
  self :: Diagnostics
  timerTable :: Timers
  effects :: "effect list"

definition sendDiagnostics :: "Diagnostics \<Rightarrow> (string \<times> Diagnostic list) list \<Rightarrow> Diagnostics" where
  \<comment> \<open>the entries of the Map, in the order of insertion\<close>
  "sendDiagnostics this diags =
     foldl (\<lambda>this entry.
              this\<lparr>diagnosticCollection := (diagnosticCollection this)(fst entry \<mapsto> snd entry)\<rparr>)
           this diags"

definition validationSucceeded ::
  "nat \<Rightarrow> bool \<Rightarrow> (string \<times> Diagnostic list) list \<Rightarrow> Run \<Rightarrow> Run"
where
  \<comment> \<open>the callback \<open>onSuccess\<close> that \<open>validatePlan\<close> and \<open>validateDomainAndProblems\<close> pass on,
      which holds \<open>scheduleFurtherValidation\<close>; \<open>now\<close> is the time it runs at\<close>
  "validationSucceeded now scheduleFurtherValidation diags r =
     (let this1 = sendDiagnostics (self r) diags
      in if scheduleFurtherValidation
         then (case scheduleValidation now (this1, timerTable r) of
                 (this2, T) \<Rightarrow> r\<lparr>self := this2, timerTable := T\<rparr>)
         else r\<lparr>self := this1\<rparr>)"

definition planValidationFailed :: "string \<Rightarrow> Run \<Rightarrow> Run" where
  \<comment> \<open>the callback \<open>onError\<close> of \<open>validatePlan\<close>\<close>
  "planValidationFailed err r = r\<lparr>effects := effects r @ [ShowErrorMessage err]\<rparr>"

definition parserValidationFailed :: "string \<Rightarrow> Run \<Rightarrow> Run" where
  \<comment> \<open>the callback \<open>onError\<close> of \<open>validateDomainAndProblems\<close>\<close>
  "parserValidationFailed err r =
     r\<lparr>effects := effects r @ [ShowErrorMessage err, SuggestNewParserConfiguration False]\<rparr>"

definition isServiceUrl :: "string \<Rightarrow> bool" where
  \<comment> \<open>\<open>path.match(/^http[s]?:/i)\<close>\<close>
  "isServiceUrl path =
     (prefix ''http:'' (toLowerCase path) \<or> prefix ''https:'' (toLowerCase path))"

definition createValidator :: "Diagnostics \<Rightarrow> exn + (Validator \<times> Diagnostics)" where
  "createValidator this =
     (let settings = pddlParserSettings this
      in if (case validator this of
               None \<Rightarrow> True
             | Some v \<Rightarrow>
                 Some (pathOf v) \<noteq> executableOrService settings
                 \<or> (case v of
                       ValidatorExecutable path options customPattern \<Rightarrow>
                         options \<noteq> executableOptions settings
                         \<or> customPattern \<noteq> problemPattern settings
                     | ValidatorService path \<Rightarrow> False))
         then (case executableOrService settings of
                 None \<Rightarrow> Inl TypeError
               | Some path \<Rightarrow>
                   (let v = (if isServiceUrl path then ValidatorService path
                             else ValidatorExecutable path (executableOptions settings)
                                    (problemPattern settings))
                    in Inr (v, this\<lparr>validator := Some v\<rparr>)))
         else (case validator this of
                 Some v \<Rightarrow> Inr (v, this)
               | None \<Rightarrow> Inl TypeError))"

definition validateDomainAndProblems ::
  "Environment \<Rightarrow> FileInfo \<Rightarrow> ProblemInfo list \<Rightarrow> bool \<Rightarrow> Run \<Rightarrow> exn + Run"
where
  "validateDomainAndProblems env domainInfo problemFiles scheduleFurtherValidation r =
     (let settings = pddlParserSettings (self r)
      in if executableOrService settings = None \<or> executableOrService settings = Some []
         then Inr (r\<lparr>effects := effects r @ [SuggestNewParserConfiguration True]\<rparr>)
         else
           (let this1 = setFileStatus (fileUri domainInfo) Validating (self r);
                this2 = foldl (\<lambda>this p. setFileStatus (fileUri p) Validating this)
                          this1 problemFiles
            in case createValidator this2 of
                 Inl e \<Rightarrow> Inl e
               | Inr (v, this3) \<Rightarrow>
                   Inr (foldl (\<lambda>r cb.
                                 case cb of
                                   OnSuccess diags \<Rightarrow>
                                     validationSucceeded (clockAtValidate env)
                                       scheduleFurtherValidation diags r
                                 | OnError err \<Rightarrow> parserValidationFailed err r)
                          (r\<lparr>self := this3,
                             effects := effects r
                               @ [ValidatorValidate v (fileUri domainInfo)
                                    (map fileUri problemFiles) scheduleFurtherValidation]\<rparr>)
                          (validatorCallbacks env))))"

text \<open>
  \<open>PddlWorkspace.getProblemFiles\<close> is not among the sources: \<open>validatePddlDocument\<close> takes
  it as the parameter \<open>getProblemFiles\<close>.
\<close>

definition validatePddlDocument ::
  "(nat \<Rightarrow> nat \<Rightarrow> Range_t) \<Rightarrow> (string \<Rightarrow> string)
     \<Rightarrow> (PddlWorkspace \<Rightarrow> FileInfo \<Rightarrow> ProblemInfo list)
     \<Rightarrow> Environment \<Rightarrow> PddlFile \<Rightarrow> bool \<Rightarrow> Run \<Rightarrow> exn + Run"
where
  "validatePddlDocument createRange getFileName getProblemFiles env fileInfo
       scheduleFurtherValidation r =
     (case fileInfo of
        DomainFile domainInfo \<Rightarrow>
          validateDomainAndProblems env domainInfo
            (getProblemFiles (pddlWorkspace (self r)) domainInfo) scheduleFurtherValidation r
      | ProblemFile problemInfo \<Rightarrow>
          (case getDomainFileFor createRange getFileName (self r) problemInfo of
             Inl e \<Rightarrow> Inl e
           | Inr (None, this1) \<Rightarrow> Inr (r\<lparr>self := this1\<rparr>)
           | Inr (Some domainFile, this1) \<Rightarrow>
               validateDomainAndProblems env domainFile [problemInfo]
                 scheduleFurtherValidation (r\<lparr>self := this1\<rparr>))
      | PlanFile plan \<Rightarrow> Inr r
      | UnknownFile unknownInfo \<Rightarrow> Inr r)"

text \<open>
  \<open>validatePlan\<close>: the plan validator works on the workspace of the scheduler (one
  workspace owns all files, spec section 3). \<open>validatePlanAndReportDiagnostics\<close> is an
  \<open>async\<close> function without an \<open>await\<close>: it runs to its end inside the call, callbacks
  included, and an exception it throws rejects its promise, which \<open>validatePlan\<close> drops.
\<close>

definition validatePlan :: "Environment \<Rightarrow> PlanInfo \<Rightarrow> bool \<Rightarrow> Run \<Rightarrow> Run" where
  "validatePlan env plan scheduleFurtherValidation r =
     (if length (validatorPath env) = 0
      then r\<lparr>effects := effects r
                @ [ShowErrorMessage
                     (''Set the 'validate' executable path to the '' @ CHR 0x27 # confPddl env
                        @ ''.'' @ validationPath env @ CHR 0x27 # '' setting.'')]\<rparr>
      else
        (let this1 = setFileStatus (fileUri plan) Validating (self r);
             r1 = r\<lparr>self := this1\<rparr>
         in case validatePlanAndReportDiagnostics (pddlWorkspace this1) (spawnSyncReturns env)
                   (plan\<lparr>status := Validating\<rparr>) of
              Inl e \<Rightarrow> r1\<lparr>effects := effects r1 @ [UnhandledRejection e]\<rparr>
            | Inr (outcome, callbacks) \<Rightarrow>
                foldl (\<lambda>r cb.
                         case cb of
                           OnSuccess diags \<Rightarrow>
                             validationSucceeded (clockAfterSpawn env)
                               scheduleFurtherValidation diags r
                         | OnError err \<Rightarrow> planValidationFailed err r)
                      r1 callbacks))"

definition validateAllDirty ::
  "(nat \<Rightarrow> nat \<Rightarrow> Range_t) \<Rightarrow> (string \<Rightarrow> string)
     \<Rightarrow> (PddlWorkspace \<Rightarrow> FileInfo \<Rightarrow> ProblemInfo list)
     \<Rightarrow> Environment \<Rightarrow> Run \<Rightarrow> exn + Run"
where
  "validateAllDirty createRange getFileName getProblemFiles env r =
     (let dirtyUnknowns =
            getAllFilesIf (pddlWorkspace (self r))
              (\<lambda>fileInfo. isUnknownPddl fileInfo \<and> getStatus fileInfo = Parsed);
          r1 = r\<lparr>self := foldl (validateUnknownFile createRange) (self r) dirtyUnknowns\<rparr>;
          dirtyDomains =
            getAllFilesIf (pddlWorkspace (self r1))
              (\<lambda>fileInfo. isDomain fileInfo \<and> getStatus fileInfo = Parsed)
      in case dirtyDomains of
           firstDirtyDomain # otherDomains \<Rightarrow>
             validatePddlDocument createRange getFileName getProblemFiles env firstDirtyDomain
               (length dirtyDomains > 1) r1
         | [] \<Rightarrow>
             (let dirtyProblems =
                    getAllFilesIf (pddlWorkspace (self r1))
                      (\<lambda>fileInfo. isProblem fileInfo \<and> getStatus fileInfo = Parsed)
              in case (case dirtyProblems of
                         firstDirtyProblem # otherProblems \<Rightarrow>
                           validatePddlDocument createRange getFileName getProblemFiles env
                             firstDirtyProblem (length dirtyProblems > 1) r1
                       | [] \<Rightarrow> Inr r1) of
                   Inl e \<Rightarrow> Inl e
                 | Inr r2 \<Rightarrow>
                     (let dirtyPlans =
                            getAllFilesIf (pddlWorkspace (self r2))
                              (\<lambda>fileInfo. isPlan fileInfo \<and> getStatus fileInfo = Parsed)
                      in case dirtyPlans of
                           PlanFile firstDirtyPlan # otherPlans \<Rightarrow>
                             Inr (validatePlan env firstDirtyPlan (length dirtyPlans > 1) r2)
                         | other \<Rightarrow> Inr r2)))"

section \<open>The event loop of the debounce\<close>

text \<open>
  The event loop as far as the debounce goes: before an edit at time \<open>t\<close> is handled,
  the timers due by \<open>t\<close> fire, each starting one validation sweep; \<open>sweeps\<close> lists the
  times at which sweeps started. An edit (the workspace's event UPDATED) calls
  \<open>scheduleValidation\<close>. What a sweep does, and the further passes its validators may
  ask for, is \<open>validateAllDirty\<close> above and is not run here.
\<close>

record Loop =
  scheduler :: Diagnostics
  timers :: Timers
  sweeps :: "nat list"

definition fireDue :: "nat \<Rightarrow> Loop \<Rightarrow> Loop" where
  "fireDue t l =
     l\<lparr>timers := (timers l)\<lparr>pending := filter (\<lambda>(h, due). \<not> due \<le> t) (pending (timers l))\<rparr>,
       sweeps := sweeps l @ map snd (filter (\<lambda>(h, due). due \<le> t) (pending (timers l)))\<rparr>"

definition onUpdated :: "nat \<Rightarrow> Loop \<Rightarrow> Loop" where
  "onUpdated t l =
     (let l1 = fireDue t l;
          (this, T) = scheduleValidation t (scheduler l1, timers l1)
      in l1\<lparr>scheduler := this, timers := T\<rparr>)"

definition runEdits :: "nat list \<Rightarrow> Loop \<Rightarrow> Loop" where
  "runEdits ts l = foldl (\<lambda>l t. onUpdated t l) l ts"

definition newLoop :: "PddlWorkspace \<Rightarrow> PDDLParserSettings \<Rightarrow> Loop" where
  \<comment> \<open>after the constructor: no timer was started\<close>
  "newLoop ws settings =
     \<lparr>scheduler = \<lparr>pddlWorkspace = ws, diagnosticCollection = Map.empty, timeout = None,
                    pddlParserSettings = settings, validator = None\<rparr>,
      timers = \<lparr>pending = [], nextHandle = 0\<rparr>,
      sweeps = []\<rparr>"

text \<open>
  The debounce property reads: edits arriving within the debounce window. A sequence of
  edit times is within the window \<open>D\<close> when each edit comes no earlier than the one before
  it and less than \<open>D\<close> after it, that is, before the timer the earlier edit started is due.
\<close>

fun editsWithinWindow :: "nat \<Rightarrow> nat list \<Rightarrow> bool" where
  "editsWithinWindow D [] = True"
| "editsWithinWindow D [t] = True"
| "editsWithinWindow D (t # t' # ts) = (t \<le> t' \<and> t' < t + D \<and> editsWithinWindow D (t' # ts))"

section \<open>The type-object index (TypeObjectMap)\<close>

text \<open>
  Modelled from the spec: the classes \<open>TypeObjects\<close> and \<open>TypeObjectMap\<close> are declared in
  common/src, which is not among the sources; the sources hold their test only. The spec
  (sections 2 and 4.3) gives: a mapping from type name to an ordered, duplicate-free list
  of object names, looked up by type name without regard to letter case; a reverse mapping
  from object name to owning type, looked up in exact case, in which an object keeps the
  type it was first added with; \<open>add(type, object)\<close>; \<open>addAll(type, objects)\<close>, which adds
  the objects one by one; \<open>length\<close>, the number of types. Both mappings keep their
  entries in the order of insertion.
\<close>

record TypeObjects =
  typeName :: string
  objects :: "string list"

definition addObject :: "string \<Rightarrow> TypeObjects \<Rightarrow> TypeObjects" where
  "addObject obj typeObjects =
     (if obj \<in> set (objects typeObjects) then typeObjects
      else typeObjects\<lparr>objects := objects typeObjects @ [obj]\<rparr>)"

definition getObjects :: "TypeObjects \<Rightarrow> string list" where
  "getObjects typeObjects = objects typeObjects"

record TypeObjectMap =
  typeNameToTypeObjectMap :: "(string \<times> TypeObjects) list"
  objectNameToTypeMap :: "(string \<times> string) list"

definition newTypeObjectMap :: TypeObjectMap where
  "newTypeObjectMap = \<lparr>typeNameToTypeObjectMap = [], objectNameToTypeMap = []\<rparr>"

definition mapLength :: "TypeObjectMap \<Rightarrow> nat" where
  "mapLength m = length (typeNameToTypeObjectMap m)"

definition getTypeCaseInsensitive :: "TypeObjectMap \<Rightarrow> string \<Rightarrow> TypeObjects option" where
  "getTypeCaseInsensitive m t = map_of (typeNameToTypeObjectMap m) (toLowerCase t)"

definition getTypeOf :: "TypeObjectMap \<Rightarrow> string \<Rightarrow> TypeObjects option" where
  "getTypeOf m obj =
     (case map_of (objectNameToTypeMap m) obj of
        None \<Rightarrow> None
      | Some t \<Rightarrow> getTypeCaseInsensitive m t)"

primrec upsert ::
  "string \<Rightarrow> string \<Rightarrow> (TypeObjects \<Rightarrow> TypeObjects) \<Rightarrow> (string \<times> TypeObjects) list
     \<Rightarrow> (string \<times> TypeObjects) list"
where
  "upsert k t inserter [] = [(k, inserter \<lparr>typeName = t, objects = []\<rparr>)]"
| "upsert k t inserter (e # es) =
     (if fst e = k then (k, inserter (snd e)) # es else e # upsert k t inserter es)"

definition add :: "string \<Rightarrow> string \<Rightarrow> TypeObjectMap \<Rightarrow> TypeObjectMap" where
  "add t obj m =
     \<lparr>typeNameToTypeObjectMap =
        upsert (toLowerCase t) t (addObject obj) (typeNameToTypeObjectMap m),
      objectNameToTypeMap =
        (case map_of (objectNameToTypeMap m) obj of
           None \<Rightarrow> objectNameToTypeMap m @ [(obj, t)]
         | Some owner \<Rightarrow> objectNameToTypeMap m)\<rparr>"

definition addAll :: "string \<Rightarrow> string list \<Rightarrow> TypeObjectMap \<Rightarrow> TypeObjectMap" where
  "addAll t objs m = foldl (\<lambda>m obj. add t obj m) m objs"

text \<open>
  \<open>hasObject m t obj\<close>: the object is in the list of the type and has an owning type.
\<close>

definition hasObject :: "TypeObjectMap \<Rightarrow> string \<Rightarrow> string \<Rightarrow> bool" where
  "hasObject m t obj =
     ((case getTypeCaseInsensitive m t of
         None \<Rightarrow> False
       | Some typeObjects \<Rightarrow> obj \<in> set (getObjects typeObjects))
      \<and> map_of (objectNameToTypeMap m) obj \<noteq> None)"

section \<open>Example inputs\<close>

definition examplePlan :: PlanInfo where
  "examplePlan =
     \<lparr>fileUri = ''file:///w/rover.plan'', name = ''rover-plan'', ftext = ''0: (move a b)'',
      status = Parsed, problemName = ''rover1'',
      steps = [\<lparr>startTime = 0, lineIndex = 3\<rparr>,
               \<lparr>startTime = 1, lineIndex = 4\<rparr>,
               \<lparr>startTime = 5 / 2, lineIndex = 7\<rparr>]\<rparr>"

definition exampleError :: JsError where
  "exampleError = \<lparr>errName = ''Error'', errMessage = ''spawnSync validate ETIMEDOUT''\<rparr>"

definition exampleOutput :: string where
  "exampleOutput =
     ''Checking next happening (time 1.0)\<newline>Updating (at rover b)\<newline>'' @
     ''Checking next happening (time 2.5)\<newline>'' @
     ''Plan failed because of unsatisfied precondition in:\<newline>(sample rover b)\<newline>\<newline>'' @
     ''Plan failed to execute\<newline>\<newline>Plan Repair Advice:\<newline>\<newline>'' @
     ''(sample rover b) has an unsatisfied precondition at time 2.5\<newline>'' @
     ''(Set (empty rover) to true)\<newline>\<newline>Failed plans:\<newline> rover.plan''"

definition exampleGoalOutput :: string where
  "exampleGoalOutput =
     ''Plan executed successfully - checking goal\<newline>Goal not satisfied\<newline>Plan invalid\<newline>''"

definition exampleChild :: SpawnSyncReturns where
  "exampleChild = \<lparr>childError = None, childStdout = Some ''Plan valid''\<rparr>"

definition planOnlyWorkspace :: PddlWorkspace where
  "planOnlyWorkspace = \<lparr>folders = [(''file:///w'', [PlanFile examplePlan])]\<rparr>"

definition exampleProblem :: ProblemInfo where
  "exampleProblem =
     \<lparr>fileUri = ''file:///w/rover1.pddl'', name = ''ROVER1'',
      ftext = ''(define (problem ROVER1) (:domain rover))'', status = Parsed,
      domainName = ''rover''\<rparr>"

definition noDomainWorkspace :: PddlWorkspace where
  "noDomainWorkspace =
     \<lparr>folders = [(''file:///w'', [PlanFile examplePlan, ProblemFile exampleProblem])]\<rparr>"

text \<open>
  Stand-ins for \<open>Validator.createRange\<close> and \<open>PddlWorkspace.getFileName\<close> in the
  examples: a range of 100 characters from the given position, and the part of a URI after
  its last slash.
\<close>

definition exampleRange :: "nat \<Rightarrow> nat \<Rightarrow> Range_t" where
  "exampleRange line character =
     \<lparr>startLine = line, startCharacter = character, endLine = line, endCharacter = character + 100\<rparr>"

definition exampleFileName :: "string \<Rightarrow> string" where
  "exampleFileName uri = rev (takeWhile (\<lambda>c. c \<noteq> CHR ''/'') (rev uri))"

definition unknownWithText :: FileInfo where
  "unknownWithText =
     \<lparr>fileUri = ''file:///w/draft.pddl'', name = '''',
      ftext = ''  ; first attempt\<newline>(defin (domain rover))\<newline>(:types rover)'', status = Parsed\<rparr>"

definition unknownEmpty :: FileInfo where
  "unknownEmpty = \<lparr>fileUri = ''file:///w/empty.pddl'', name = '''', ftext = [], status = Parsed\<rparr>"

definition exampleDomain :: FileInfo where
  "exampleDomain =
     \<lparr>fileUri = ''file:///w/rover.pddl'', name = ''Rover'',
      ftext = ''(define (domain Rover))'', status = Parsed\<rparr>"

definition otherDomain :: FileInfo where
  "otherDomain =
     \<lparr>fileUri = ''file:///w/rover2.pddl'', name = ''rover'',
      ftext = ''(define (domain rover))'', status = Validated\<rparr>"

definition exampleWorkspace :: PddlWorkspace where
  "exampleWorkspace =
     \<lparr>folders =
        [(''file:///w'',
          [UnknownFile unknownWithText, PlanFile examplePlan, DomainFile exampleDomain,
           ProblemFile exampleProblem, UnknownFile unknownEmpty])]\<rparr>"

definition twoDomainsWorkspace :: PddlWorkspace where
  "twoDomainsWorkspace =
     \<lparr>folders =
        [(''file:///w'',
          [DomainFile exampleDomain, ProblemFile exampleProblem, DomainFile otherDomain])]\<rparr>"

definition staleDiagnostic :: Diagnostic where
  "staleDiagnostic =
     \<lparr>range_d = exampleRange 0 0,
      message = ''Cannot recognize whether this is a domain or problem: (defin'',
      severity = Error\<rparr>"

definition exampleSettings :: PDDLParserSettings where
  "exampleSettings =
     \<lparr>delayInSecondsBeforeParsing = None, executableOrService = Some ''/opt/pddl/parser'',
      executableOptions = None, problemPattern = None\<rparr>"

definition diagnosticsOf :: "PddlWorkspace \<Rightarrow> Diagnostics" where
  \<comment> \<open>a scheduler on the given workspace, with one diagnostic shown for empty.pddl\<close>
  "diagnosticsOf ws =
     \<lparr>pddlWorkspace = ws,
      diagnosticCollection = [''file:///w/empty.pddl'' \<mapsto> [staleDiagnostic]],
      timeout = None,
      pddlParserSettings = exampleSettings, validator = None\<rparr>"



definition wholeNumberPlan :: PlanInfo where
  "wholeNumberPlan =
     \<lparr>fileUri = ''file:///w/rover3.plan'', name = ''rover3-plan'',
      ftext = ''0: (move a b) [2.5]'', status = Parsed, problemName = ''rover1'',
      steps = [\<lparr>startTime = 0, lineIndex = 5\<rparr>,
               \<lparr>startTime = 5 / 2, lineIndex = 7\<rparr>,
               \<lparr>startTime = 3, lineIndex = 8\<rparr>]\<rparr>"

definition wholeNumberOutput :: string where
  "wholeNumberOutput =
     ''Checking next happening (time 2.5)\<newline>Adding (at rover b)\<newline>\<newline>'' @
     ''Checking next happening (time 3)\<newline>\<newline>Plan failed to execute\<newline>''"

text \<open>
  A stand-in for \<open>PddlWorkspace.getProblemFiles\<close> in the examples: the problem files of
  the workspace that name the domain, up to letter case. The environment of the example
  passes: a plan validator is configured, it prints \<open>Plan valid\<close>, and the parser answers
  after the pass has ended.
\<close>

definition exampleProblemFiles :: "PddlWorkspace \<Rightarrow> FileInfo \<Rightarrow> ProblemInfo list" where
  "exampleProblemFiles ws domainInfo =
     concat (map (\<lambda>f. case f of
                         ProblemFile p \<Rightarrow>
                           if toLowerCase (domainName p) = toLowerCase (name domainInfo)
                           then [p] else []
                       | other \<Rightarrow> [])
                 (allFiles ws))"

definition exampleEnvironment :: Environment where
  "exampleEnvironment =
     \<lparr>validatorPath = ''/opt/val/validate'', spawnSyncReturns = exampleChild,
      validatorCallbacks = [], clockAtValidate = 8000, clockAfterSpawn = 8200,
      confPddl = ''pddl'', validationPath = ''validatorPath''\<rparr>"

definition exampleRun :: "PddlWorkspace \<Rightarrow> Run" where
  \<comment> \<open>before a pass: no timer is pending\<close>
  "exampleRun ws =
     \<lparr>self = diagnosticsOf ws, timerTable = \<lparr>pending = [], nextHandle = 0\<rparr>, effects = []\<rparr>"

section \<open>Rounding to a double\<close>

lemma roundHalfEven_bounds: "\<lfloor>x\<rfloor> \<le> roundHalfEven x \<and> roundHalfEven x \<le> \<lfloor>x\<rfloor> + 1"
  by (simp add: roundHalfEven_def Let_def)

lemma roundHalfEven_of_int: "roundHalfEven (of_int n) = n"
  by (simp add: roundHalfEven_def Let_def)

lemma roundHalfEven_mono:
  assumes "x \<le> y"
  shows "roundHalfEven x \<le> roundHalfEven y"
proof (cases "\<lfloor>x\<rfloor> = \<lfloor>y\<rfloor>")
  case True
  with assms have "x - of_int \<lfloor>x\<rfloor> \<le> y - of_int \<lfloor>y\<rfloor>" by simp
  with True show ?thesis by (auto simp: roundHalfEven_def Let_def)
next
  case False
  with assms have "\<lfloor>x\<rfloor> < \<lfloor>y\<rfloor>" using floor_mono [of x y] by linarith
  with roundHalfEven_bounds [of x] roundHalfEven_bounds [of y] show ?thesis by linarith
qed

lemma binaryExponent_bounds:
  assumes "0 < a"
  shows "2 powi (binaryExponent a) \<le> a \<and> a < 2 powi (binaryExponent a + 1)"
proof (cases "1 \<le> a")
  case True
  let ?n = "\<lfloor>a\<rfloor>"
  from True have n: "0 < ?n" by simp
  from bitlen_bounds [OF n]
  have lo: "2 ^ nat (bitlen ?n - 1) \<le> ?n" and hi: "?n < 2 ^ nat (bitlen ?n)" by simp_all
  from n have b1: "1 \<le> bitlen ?n" by (simp add: bitlen_alt_def)
  from hi have "?n + 1 \<le> 2 ^ nat (bitlen ?n)" by simp
  then have "real_of_int (?n + 1) \<le> real_of_int (2 ^ nat (bitlen ?n))" by (rule of_int_le_iff [THEN iffD2])
  then have hi': "real_of_int ?n + 1 \<le> 2 ^ nat (bitlen ?n)" by simp
  from lo have "real_of_int (2 ^ nat (bitlen ?n - 1)) \<le> real_of_int ?n"
    by (rule of_int_le_iff [THEN iffD2])
  then have lo': "2 ^ nat (bitlen ?n - 1) \<le> real_of_int ?n" by simp
  have e: "binaryExponent a = bitlen ?n - 1" using True by (simp add: binaryExponent_def)
  have p1: "(2::real) powi (bitlen ?n - 1) = 2 ^ nat (bitlen ?n - 1)"
    using b1 by (simp add: power_int_def)
  have p2: "(2::real) powi (bitlen ?n - 1 + 1) = 2 ^ nat (bitlen ?n)"
    using b1 by (simp add: power_int_def)
  have "real_of_int ?n \<le> a" by simp
  moreover have "a < real_of_int ?n + 1" by linarith
  ultimately show ?thesis unfolding e p1 p2 using lo' hi' by linarith
next
  case False
  with assms have a1: "a < 1" by simp
  let ?b = "1 / a"
  let ?n = "\<lfloor>?b\<rfloor>"
  let ?k = "bitlen ?n"
  from assms a1 have b: "1 < ?b" by simp
  then have n: "0 < ?n" by simp
  from bitlen_bounds [OF n]
  have lo: "2 ^ nat (?k - 1) \<le> ?n" and hi: "?n < 2 ^ nat ?k" by simp_all
  from n have k1: "1 \<le> ?k" by (simp add: bitlen_alt_def)
  from hi have "?n + 1 \<le> 2 ^ nat ?k" by simp
  then have "real_of_int (?n + 1) \<le> real_of_int (2 ^ nat ?k)" by (rule of_int_le_iff [THEN iffD2])
  then have hi': "real_of_int ?n + 1 \<le> 2 ^ nat ?k" by simp
  from lo have "real_of_int (2 ^ nat (?k - 1)) \<le> real_of_int ?n"
    by (rule of_int_le_iff [THEN iffD2])
  then have lo': "2 ^ nat (?k - 1) \<le> real_of_int ?n" by simp
  have "real_of_int ?n \<le> ?b" by simp
  with lo' have L: "2 ^ nat (?k - 1) \<le> ?b" by linarith
  have "?b < real_of_int ?n + 1" by linarith
  with hi' have H: "?b < 2 ^ nat ?k" by linarith
  have pk: "(2::real) powi (- ?k) = 1 / 2 ^ nat ?k"
    using k1 by (simp add: power_int_def field_simps)
  have pk1: "(2::real) powi (1 - ?k) = 1 / 2 ^ nat (?k - 1)"
    using k1 by (simp add: power_int_def field_simps)
  from H assms have lower: "1 / 2 ^ nat ?k < a"
    by (simp add: field_simps)
  from L assms have upper: "a \<le> 1 / 2 ^ nat (?k - 1)"
    by (simp add: field_simps)
  show ?thesis
  proof (cases "2 powi (1 - ?k) \<le> a")
    case True
    with False have e: "binaryExponent a = 1 - ?k" by (simp add: binaryExponent_def Let_def)
    from True upper have eq: "a = 2 powi (1 - ?k)" unfolding pk1 by simp
    have "(2::real) powi (1 - ?k + 1) = 2 powi (1 - ?k) * 2 powi 1"
      by (rule power_int_add) simp
    then have "(2::real) powi (1 - ?k + 1) = 2 * 2 powi (1 - ?k)" by simp
    with eq assms show ?thesis unfolding e by simp
  next
    case F: False
    with False have e: "binaryExponent a = - ?k" by (simp add: binaryExponent_def Let_def)
    have s: "- ?k + 1 = 1 - ?k" by simp
    from F lower show ?thesis unfolding e s pk by simp
  qed
qed


lemma epsilon_double: "roundToDouble (1 / 10000) = Finite (7378697629483821 / 2 ^ 66)"
  by code_simp

lemma roundHalfEven_epsilon: "roundHalfEven (1 / 10000 / 2 powi (- 66)) = 7378697629483821"
  by code_simp

lemma abs_signed: "0 \<le> v \<Longrightarrow> \<bar>if b then v else - v\<bar> = (v::real)"
  by simp

lemma roundToDouble_magnitude:
  assumes "1 / 10000 \<le> \<bar>x\<bar>"
  shows "roundToDouble x = PosInfinity \<or> roundToDouble x = NegInfinity
         \<or> (\<exists>v. roundToDouble x = Finite v \<and> 7378697629483821 / 2 ^ 66 \<le> \<bar>v\<bar>)"
proof -
  let ?a = "\<bar>x\<bar>"
  let ?e = "binaryExponent ?a"
  let ?q = "(2::real) powi (max ?e (- 1022) - 52)"
  let ?m = "roundHalfEven (?a / ?q)"
  let ?v = "real_of_int ?m * ?q"
  from assms have pos: "0 < ?a" by linarith
  then have x0: "x \<noteq> 0" by simp
  from binaryExponent_bounds [OF pos]
  have lo: "2 powi ?e \<le> ?a" and hi: "?a < 2 powi (?e + 1)" by simp_all
  have "(2::real) powi (- 14) < 1 / 10000" by simp
  with assms hi have lt14: "(2::real) powi (- 14) < 2 powi (?e + 1)" by linarith
  have "- 14 < ?e + 1"
  proof (rule ccontr)
    assume "\<not> - 14 < ?e + 1"
    then have "?e + 1 \<le> - 14" by simp
    then have "(2::real) powi (?e + 1) \<le> 2 powi (- 14)"
      by (rule power_int_increasing) simp
    with lt14 show False by simp
  qed
  then have e14: "- 14 \<le> ?e" by simp
  then have mx: "max ?e (- 1022) = ?e" by simp
  have qpos: "0 < ?q" by simp
  have big: "7378697629483821 / 2 ^ 66 \<le> ?v"
  proof (cases "?e = - 14")
    case True
    then have q: "?q = 2 powi (- 66)" by simp
    from assms have "1 / 10000 / 2 powi (- 66) \<le> ?a / (2::real) powi (- 66)"
      by (simp add: divide_right_mono)
    then have "roundHalfEven (1 / 10000 / 2 powi (- 66)) \<le> roundHalfEven (?a / 2 powi (- 66))"
      by (rule roundHalfEven_mono)
    then have "7378697629483821 \<le> roundHalfEven (?a / 2 powi (- 66))"
      unfolding roundHalfEven_epsilon .
    then have "(7378697629483821::real) \<le> real_of_int (roundHalfEven (?a / 2 powi (- 66)))"
      by linarith
    then show ?thesis unfolding q by (simp add: field_simps)
  next
    case False
    with e14 have e13: "- 13 \<le> ?e" by simp
    define q where "q = (2::real) powi (?e - 52)"
    define m where "m = roundHalfEven (?a / q)"
    define c where "c = (2::int) ^ 52"
    have qpos': "0 < q" unfolding q_def by simp
    have "(2::real) powi (52 + (?e - 52)) = 2 powi 52 * 2 powi (?e - 52)"
      by (rule power_int_add) simp
    then have split: "(2::real) powi ?e = real_of_int c * q"
      unfolding q_def c_def by simp
    from lo have "real_of_int c * q \<le> ?a" unfolding split .
    with qpos' have "real_of_int c \<le> ?a / q" by (simp add: pos_le_divide_eq)
    then have "roundHalfEven (real_of_int c) \<le> m" unfolding m_def by (rule roundHalfEven_mono)
    then have "c \<le> m" unfolding roundHalfEven_of_int .
    then have "real_of_int c \<le> real_of_int m" by (rule of_int_le_iff [THEN iffD2])
    with qpos' have "real_of_int c * q \<le> real_of_int m * q"
      by (intro mult_right_mono) simp_all
    then have v: "2 powi ?e \<le> real_of_int m * q" unfolding split .
    have vq: "real_of_int m * q = ?v" unfolding m_def q_def mx ..
    from e13 have "(2::real) powi (- 13) \<le> 2 powi ?e"
      by (intro power_int_increasing) simp_all
    moreover have "(7378697629483821::real) / 2 ^ 66 \<le> 2 powi (- 13)" by simp
    ultimately show ?thesis using v unfolding vq by linarith
  qed
  show ?thesis
  proof (cases "2 powi 1024 \<le> ?v")
    case True
    with x0 show ?thesis by (simp add: roundToDouble_def Let_def)
  next
    case False
    with x0 have r: "roundToDouble x = Finite (if 0 < x then ?v else - ?v)"
      by (simp add: roundToDouble_def Let_def)
    have epos: "(0::real) \<le> 7378697629483821 / 2 ^ 66" by simp
    from epos big have vpos: "0 \<le> ?v" by (rule order_trans)
    have "\<bar>if 0 < x then ?v else - ?v\<bar> = ?v"
      using vpos by (rule abs_signed)
    with big have "7378697629483821 / 2 ^ 66 \<le> \<bar>if 0 < x then ?v else - ?v\<bar>"
      by (simp only:)
    with r show ?thesis by blast
  qed
qed

lemma not_within_tolerance:
  assumes "1 / 10000 \<le> \<bar>x\<bar>"
  shows "\<not> jsLess (mathAbs (roundToDouble x)) (roundToDouble (1 / 10000))"
  using roundToDouble_magnitude [OF assms] unfolding epsilon_double by auto

text \<open>
  The subtraction is rounded as well: 1.0001 is read as the double just below it, and its
  distance to 1 is a double below that of 1e-4, so a step that starts at 1 is within the
  tolerance of the time stamp 1.0001, which the exact difference, 1e-4, is not.
\<close>

lemma parseFloat_example:
  "parseFloat ''1.0001'' = Finite (4504049987333233 / 2 ^ 52)"
  by code_simp

lemma jsMinus_example:
  "jsMinus (Finite 1) (Finite (4504049987333233 / 2 ^ 52)) = Finite (- (450359962737 / 2 ^ 52))"
  by code_simp

lemma equalsWithin_rounds_difference:
  "equalsWithin (Finite 1) (parseFloat ''1.0001'') (roundToDouble (1 / 10000))
   \<and> \<not> \<bar>1 - 10001 / 10000\<bar> < (1 / 10000 :: real)"
  unfolding parseFloat_example equalsWithin_def jsMinus_example epsilon_double by simp

section \<open>What the two patterns match\<close>

text \<open>
  The matchers above follow the engine's search. The lemmas of this section relate them to
  the texts the patterns describe: a match of the happening pattern is the literal prefix,
  digits, one character that is no line terminator, digits and a closing parenthesis; the
  loop of \<open>exec\<close> calls reaches every occurrence of the prefix; the advice pattern
  matches from the first \<open>Plan Repair Advice:\<close> to the last \<open>Failed plans:\<close>.
\<close>

lemma js_match_iff: "js_match s pat \<longleftrightarrow> (\<exists>a z. s = a @ pat @ z)"
proof (induction s)
  case Nil
  then show ?case by auto
next
  case (Cons c cs)
  show ?case
  proof
    assume "js_match (c # cs) pat"
    then consider "prefix pat (c # cs)" | "js_match cs pat" by auto
    then show "\<exists>a z. c # cs = a @ pat @ z"
    proof cases
      case 1
      then obtain z where "c # cs = pat @ z" by (auto simp: prefix_def)
      then have "c # cs = [] @ pat @ z" by simp
      then show ?thesis by blast
    next
      case 2
      with Cons obtain a z where "cs = a @ pat @ z" by blast
      then have "c # cs = (c # a) @ pat @ z" by simp
      then show ?thesis by blast
    qed
  next
    assume "\<exists>a z. c # cs = a @ pat @ z"
    then obtain a z where e: "c # cs = a @ pat @ z" by blast
    show "js_match (c # cs) pat"
    proof (cases a)
      case Nil
      with e have "prefix pat (c # cs)" by (simp add: prefix_def)
      then show ?thesis by simp
    next
      case (Cons x a')
      with e have "cs = a' @ pat @ z" by simp
      with Cons.IH have "js_match cs pat" by blast
      then show ?thesis by simp
    qed
  qed
qed

lemma take_takeWhile_le:
  "n \<le> length (takeWhile P s) \<Longrightarrow> take n s = take n (takeWhile P s)"
proof -
  assume n: "n \<le> length (takeWhile P s)"
  have "take n s = take n (takeWhile P s @ dropWhile P s)" by simp
  also have "\<dots> = take n (takeWhile P s)" using n by (simp only: take_append) simp
  finally show ?thesis .
qed

lemma take_digits:
  "n \<le> length (takeWhile isDigit s) \<Longrightarrow> list_all isDigit (take n s)"
proof -
  assume n: "n \<le> length (takeWhile isDigit s)"
  have "set (take n (takeWhile isDigit s)) \<subseteq> set (takeWhile isDigit s)" by (rule set_take_subset)
  moreover have "\<forall>x\<in>set (takeWhile isDigit s). isDigit x" by (auto dest: set_takeWhileD)
  ultimately show ?thesis using take_takeWhile_le [OF n] by (auto simp: list_all_iff)
qed

lemma closeAfterDigits_sound:
  "closeAfterDigits n s = Some (d, rest) \<Longrightarrow> n \<le> length (takeWhile isDigit s) \<Longrightarrow>
   s = d @ CHR 0x29 # rest \<and> d \<noteq> [] \<and> list_all isDigit d"
proof (induction n)
  case 0
  then show ?case by simp
next
  case (Suc n)
  show ?case
  proof (cases "drop (Suc n) s")
    case Nil
    with Suc show ?thesis by simp
  next
    case (Cons c r)
    show ?thesis
    proof (cases "c = CHR 0x29")
      case True
      with Suc.prems Cons have d: "d = take (Suc n) s" and r: "rest = r" by auto
      have "s = take (Suc n) s @ drop (Suc n) s" by simp
      with Cons True d r have "s = d @ CHR 0x29 # rest" by simp
      moreover from Cons have "s \<noteq> []" by auto
      with d have "d \<noteq> []" by auto
      moreover from Suc.prems d have "list_all isDigit d" by (simp add: take_digits)
      ultimately show ?thesis by blast
    next
      case False
      with Suc Cons show ?thesis by simp
    qed
  qed
qed

lemma timeGroup_sound:
  "timeGroup k s = Some (cap, rest) \<Longrightarrow> k \<le> length (takeWhile isDigit s) \<Longrightarrow>
   \<exists>d1 c d2. cap = d1 @ c # d2 \<and> s = cap @ CHR 0x29 # rest \<and> d1 \<noteq> [] \<and> list_all isDigit d1
     \<and> \<not> isLineTerminator c \<and> d2 \<noteq> [] \<and> list_all isDigit d2"
proof (induction k)
  case 0
  then show ?case by simp
next
  case (Suc k)
  show ?case
  proof (cases "drop (Suc k) s")
    case Nil
    with Suc show ?thesis by simp
  next
    case (Cons c r)
    show ?thesis
    proof (cases "isLineTerminator c")
      case True
      with Suc Cons show ?thesis by simp
    next
      case False
      show ?thesis
      proof (cases "closeAfterDigits (length (takeWhile isDigit r)) r")
        case None
        with Suc Cons False show ?thesis by simp
      next
        case (Some a)
        obtain d2 rest' where a: "a = (d2, rest')" by (cases a)
        from Some a have snd: "r = d2 @ CHR 0x29 # rest' \<and> d2 \<noteq> [] \<and> list_all isDigit d2"
          by (auto dest: closeAfterDigits_sound)
        from Suc.prems Cons False Some a
        have cap: "cap = take (Suc k) s @ c # d2" and rest: "rest = rest'" by auto
        have "s = take (Suc k) s @ drop (Suc k) s" by simp
        with Cons snd cap rest have "s = cap @ CHR 0x29 # rest" by simp
        moreover from Cons have "s \<noteq> []" by auto
        then have "take (Suc k) s \<noteq> []" by auto
        moreover from Suc.prems have "list_all isDigit (take (Suc k) s)" by (simp add: take_digits)
        ultimately show ?thesis using cap False snd by blast
      qed
    qed
  qed
qed

lemma matchHappening_sound:
  assumes "matchHappening s = Some (cap, rest)"
  shows "\<exists>d1 c d2. cap = d1 @ c # d2 \<and> s = happeningPrefix @ cap @ CHR 0x29 # rest
           \<and> d1 \<noteq> [] \<and> list_all isDigit d1 \<and> \<not> isLineTerminator c
           \<and> d2 \<noteq> [] \<and> list_all isDigit d2"
proof -
  let ?t = "drop (length happeningPrefix) s"
  from assms have p: "prefix happeningPrefix s"
    and t: "timeGroup (length (takeWhile isDigit ?t)) ?t = Some (cap, rest)"
    by (auto simp: matchHappening_def Let_def split: if_splits)
  from p have s: "s = happeningPrefix @ ?t" by (auto simp: prefix_def)
  from timeGroup_sound [OF t] obtain d1 c d2 where
    "cap = d1 @ c # d2" "?t = cap @ CHR 0x29 # rest" "d1 \<noteq> []" "list_all isDigit d1"
    "\<not> isLineTerminator c" "d2 \<noteq> []" "list_all isDigit d2" by auto
  with s show ?thesis by metis
qed

lemma execAll_nonempty:
  "execAll s \<noteq> [] \<Longrightarrow> \<exists>pre t cap rest. s = pre @ t \<and> matchHappening t = Some (cap, rest)"
proof (induction s rule: execAll.induct)
  case 1
  then show ?case by simp
next
  case (2 c cs)
  show ?case
  proof (cases "matchHappening (c # cs)")
    case None
    with 2 obtain pre t cap rest where "cs = pre @ t" "matchHappening t = Some (cap, rest)"
      by auto
    then have "c # cs = (c # pre) @ t \<and> matchHappening t = Some (cap, rest)" by simp
    then show ?thesis by blast
  next
    case (Some a)
    obtain cap rest where "a = (cap, rest)" by (cases a)
    with Some have "c # cs = [] @ (c # cs) \<and> matchHappening (c # cs) = Some (cap, rest)" by simp
    then show ?thesis by blast
  qed
qed

lemma execAll_none:
  assumes "\<not> (\<exists>pre d1 c d2 post.
      output = pre @ happeningPrefix @ d1 @ c # d2 @ CHR 0x29 # post
      \<and> d1 \<noteq> [] \<and> list_all isDigit d1 \<and> \<not> isLineTerminator c
      \<and> d2 \<noteq> [] \<and> list_all isDigit d2)"
  shows "execAll output = []"
proof (rule ccontr)
  assume "execAll output \<noteq> []"
  then obtain pre t cap rest where o: "output = pre @ t" and m: "matchHappening t = Some (cap, rest)"
    using execAll_nonempty by blast
  from matchHappening_sound [OF m] obtain d1 c d2 where
    "cap = d1 @ c # d2" "t = happeningPrefix @ cap @ CHR 0x29 # rest" "d1 \<noteq> []"
    "list_all isDigit d1" "\<not> isLineTerminator c" "d2 \<noteq> []" "list_all isDigit d2" by auto
  with o have "output = pre @ happeningPrefix @ d1 @ c # d2 @ CHR 0x29 # rest
      \<and> d1 \<noteq> [] \<and> list_all isDigit d1 \<and> \<not> isLineTerminator c
      \<and> d2 \<noteq> [] \<and> list_all isDigit d2" by simp
  with assms show False by blast
qed

lemma takeWhile_digits_stop:
  "list_all isDigit d \<Longrightarrow> \<not> isDigit c \<Longrightarrow> takeWhile isDigit (d @ c # r) = d"
  by (induction d) auto

lemma close_paren_not_digit: "\<not> isDigit (CHR 0x29)"
  by (simp add: isDigit_def)

lemma closeAfterDigits_complete:
  assumes "d2 \<noteq> []" and "list_all isDigit d2"
  shows "closeAfterDigits (length (takeWhile isDigit (d2 @ CHR 0x29 # post))) (d2 @ CHR 0x29 # post)
         = Some (d2, post)"
proof -
  from assms have tw: "takeWhile isDigit (d2 @ CHR 0x29 # post) = d2"
    by (simp add: takeWhile_digits_stop close_paren_not_digit)
  from assms obtain n where n: "length d2 = Suc n" by (cases d2) auto
  then show ?thesis by (simp add: tw)
qed

lemma timeGroup_complete:
  assumes "d1 \<noteq> []" and "list_all isDigit d1" and "\<not> isDigit c" and "\<not> isLineTerminator c"
    and "d2 \<noteq> []" and "list_all isDigit d2"
  shows "timeGroup (length (takeWhile isDigit (d1 @ c # d2 @ CHR 0x29 # post)))
           (d1 @ c # d2 @ CHR 0x29 # post) = Some (d1 @ c # d2, post)"
proof -
  from assms have tw: "takeWhile isDigit (d1 @ c # d2 @ CHR 0x29 # post) = d1"
    by (simp add: takeWhile_digits_stop)
  from assms obtain n where n: "length d1 = Suc n" by (cases d1) auto
  from closeAfterDigits_complete [OF assms(5,6), of post] n assms(4)
  show ?thesis by (simp add: tw)
qed

lemma matchHappening_complete:
  assumes "d1 \<noteq> []" and "list_all isDigit d1" and "\<not> isDigit c" and "\<not> isLineTerminator c"
    and "d2 \<noteq> []" and "list_all isDigit d2"
  shows "matchHappening (happeningPrefix @ d1 @ c # d2 @ CHR 0x29 # post) = Some (d1 @ c # d2, post)"
  using timeGroup_complete [OF assms, of post] by (simp add: matchHappening_def)

lemma suffix_skip:
  assumes "suffix x (A @ B)" and "x \<noteq> []" and "hd x \<notin> set A"
  shows "suffix x B"
proof -
  from assms(1) consider "suffix x B" | x' where "suffix x' A" "x = x' @ B"
    by (auto simp: suffix_append)
  then show ?thesis
  proof cases
    case 1
    then show ?thesis by simp
  next
    case 2
    show ?thesis
    proof (cases x')
      case Nil
      with 2 show ?thesis by simp
    next
      case (Cons h t)
      with 2 have "hd x = h" by simp
      moreover from 2 Cons set_mono_suffix [of x' A] have "h \<in> set A" by auto
      ultimately show ?thesis using assms(3) by simp
    qed
  qed
qed

lemma suffix_hd_in_set: "suffix x B \<Longrightarrow> x \<noteq> [] \<Longrightarrow> hd x \<in> set B"
  using set_mono_suffix [of x B] hd_in_set [of x] by blast

lemma not_digit_C: "\<not> isDigit (CHR ''C'')"
  by (simp add: isDigit_def)

lemma all_digits_not_C: "list_all isDigit d \<Longrightarrow> CHR ''C'' \<notin> set d"
  using not_digit_C by (auto simp: list_all_iff)

lemma matchHappening_no_straddle:
  assumes m: "matchHappening (a # pre @ s) = Some (cap, rest)"
    and p: "prefix happeningPrefix s"
  shows "suffix s rest"
proof -
  from matchHappening_sound [OF m] obtain d1 c d2 where
    cap: "cap = d1 @ c # d2" and u: "a # pre @ s = happeningPrefix @ cap @ CHR 0x29 # rest"
    and d1: "list_all isDigit d1" and d2: "d2 \<noteq> []" "list_all isDigit d2" by auto
  from p obtain s2 where s: "s = happeningPrefix @ s2" by (auto simp: prefix_def)
  then have sne: "s \<noteq> []" and hd: "hd s = CHR ''C''" by (simp_all add: happeningPrefix_def)
  let ?m = "happeningPrefix @ d1 @ c # d2 @ [CHR 0x29]"
  have um: "a # pre @ s = ?m @ rest" using u cap by simp
  have "a # pre @ s = (a # pre) @ s" by simp
  then have "suffix s (a # pre @ s)" by (simp only: suffix_def) blast
  with um have "suffix s (?m @ rest)" by simp
  then have "suffix s rest \<or> (\<exists>s'. s = s' @ rest \<and> suffix s' ?m)"
    by (rule suffix_append [THEN iffD1])
  then consider "suffix s rest" | s' where "suffix s' ?m" "s = s' @ rest"
    by blast
  then show ?thesis
  proof cases
    case 1
    then show ?thesis by simp
  next
    case 2
    note outer = 2
    show ?thesis
    proof (cases "s' = []")
      case True
      with 2 show ?thesis by simp
    next
      case False
      from um have "length (a # pre @ s) = length (?m @ rest)" by (rule arg_cong)
      with 2(2) have "length s' < length ?m" by simp
      then have ne: "s' \<noteq> ?m" by auto
      have "?m = CHR ''C'' # (tl happeningPrefix @ d1 @ c # d2 @ [CHR 0x29])"
        by (simp add: happeningPrefix_def)
      with 2(1) ne have st: "suffix s' (tl happeningPrefix @ d1 @ c # d2 @ [CHR 0x29])"
        by (simp only: suffix_Cons) simp
      from False 2 hd have h: "hd s' = CHR ''C''" by (cases s') auto
      have "CHR ''C'' \<notin> set (tl happeningPrefix)" by (simp add: happeningPrefix_def)
      with suffix_skip [OF st False] h have "suffix s' (d1 @ c # d2 @ [CHR 0x29])" by simp
      from suffix_skip [OF this False] h d1 have "suffix s' (c # d2 @ [CHR 0x29])"
        by (simp add: all_digits_not_C)
      then consider "s' = c # d2 @ [CHR 0x29]" | "suffix s' (d2 @ [CHR 0x29])"
        by (auto simp: suffix_Cons)
      then show ?thesis
      proof cases
        case 1
        from d2 obtain x d2' where x: "d2 = x # d2'" "isDigit x" by (cases d2) auto
        with 1 outer(2) have "s ! 1 = x" by simp
        moreover from s have "s ! 1 = CHR ''h''" by (simp add: happeningPrefix_def)
        ultimately show ?thesis using x(2) by (simp add: isDigit_def)
      next
        case 2
        from suffix_hd_in_set [OF 2 False] h have "CHR ''C'' \<in> set (d2 @ [CHR 0x29])" by simp
        with all_digits_not_C [OF d2(2)] show ?thesis by simp
      qed
    qed
  qed
qed

lemma execAll_reaches:
  "prefix happeningPrefix s \<Longrightarrow> \<exists>caps. execAll (pre @ s) = caps @ execAll s"
proof (induction "pre @ s" arbitrary: pre rule: execAll.induct)
  case 1
  then show ?case by simp
next
  case (2 c cs)
  show ?case
  proof (cases pre)
    case Nil
    then show ?thesis by simp
  next
    case (Cons a pre')
    with 2(3) have ccs: "c # cs = a # pre' @ s" by simp
    show ?thesis
    proof (cases "matchHappening (c # cs)")
      case None
      from ccs have "cs = pre' @ s" by simp
      from 2(1) [OF None this 2(4)] obtain caps where "execAll (pre' @ s) = caps @ execAll s" ..
      moreover from None have "execAll (c # cs) = execAll cs" by simp
      ultimately have "execAll (c # cs) = caps @ execAll s" using \<open>cs = pre' @ s\<close> by simp
      then show ?thesis unfolding 2(3) by blast
    next
      case (Some x)
      obtain cap rest where x: "x = (cap, rest)" by (cases x)
      with Some ccs have "matchHappening (a # pre' @ s) = Some (cap, rest)" by simp
      from matchHappening_no_straddle [OF this 2(4)] obtain pre2 where r: "rest = pre2 @ s"
        by (auto simp: suffix_def)
      from x r have "(cap, pre2 @ s) = x" by simp
      from 2(2) [OF Some this 2(4)] obtain caps where
        "execAll (pre2 @ s) = caps @ execAll s" ..
      with Some x r have "execAll (c # cs) = (cap # caps) @ execAll s" by simp
      then show ?thesis unfolding 2(3) by blast
    qed
  qed
qed

lemma execAll_no_prefix: "\<not> js_match s happeningPrefix \<Longrightarrow> execAll s = []"
proof (induction s rule: execAll.induct)
  case 1
  then show ?case by simp
next
  case (2 c cs)
  then have "\<not> prefix happeningPrefix (c # cs)" and n: "\<not> js_match cs happeningPrefix" by auto
  then have "matchHappening (c # cs) = None" by (simp add: matchHappening_def)
  with 2 n show ?case by simp
qed

lemma lastTimeStamp_last_occurrence:
  assumes "output = pre @ happeningPrefix @ d1 @ c # d2 @ CHR 0x29 # post"
    and "d1 \<noteq> []" and "list_all isDigit d1" and "\<not> isDigit c" and "\<not> isLineTerminator c"
    and "d2 \<noteq> []" and "list_all isDigit d2"
    and "\<not> js_match post happeningPrefix"
  shows "lastTimeStamp output = parseFloat (d1 @ c # d2)"
proof -
  let ?s = "happeningPrefix @ d1 @ c # d2 @ CHR 0x29 # post"
  have "prefix happeningPrefix ?s" by simp
  from execAll_reaches [OF this, of pre] obtain caps where
    e: "execAll (pre @ ?s) = caps @ execAll ?s" ..
  obtain h t where ht: "?s = h # t" by (cases ?s) (auto simp: happeningPrefix_def)
  have m: "matchHappening ?s = Some (d1 @ c # d2, post)"
    by (rule matchHappening_complete [OF assms(2-7)])
  have "execAll ?s = (d1 @ c # d2) # execAll post"
    using m unfolding ht by simp
  with execAll_no_prefix [OF assms(8)] have "execAll ?s = [d1 @ c # d2]" by simp
  with e assms(1) have "execAll output = caps @ [d1 @ c # d2]" by simp
  then show ?thesis by (simp add: lastTimeStamp_def)
qed

lemma lastTimeStamp_none:
  "execAll output = [] \<Longrightarrow> lastTimeStamp output = Finite (- 1)"
  by (simp add: lastTimeStamp_def)

text \<open>
  The group \<open>(\d+.\d+)\<close> takes digits, any one character that is not a line terminator, and
  digits: it has no match in a time of one or two digits, it takes a whole number of three
  digits with the middle digit for the dot, and it takes characters other than the dot.
\<close>

lemma execAll_examples:
  "execAll ''Checking next happening (time 3)'' = []
   \<and> execAll ''Checking next happening (time 10)'' = []
   \<and> execAll ''Checking next happening (time 100)'' = [''100'']
   \<and> execAll ''Checking next happening (time 1-5)'' = [''1-5'']"
  by code_simp

lemma greedyUntil_sound:
  "greedyUntil n r = Some g \<Longrightarrow> n \<le> length r \<Longrightarrow> g \<noteq> [] \<and> (\<exists>z. r = g @ adviceEnd @ z)"
proof (induction n)
  case 0
  then show ?case by simp
next
  case (Suc n)
  show ?case
  proof (cases "prefix adviceEnd (drop (Suc n) r)")
    case True
    with Suc.prems have g: "g = take (Suc n) r" by simp
    from True obtain z where "drop (Suc n) r = adviceEnd @ z" by (auto simp: prefix_def)
    moreover have "r = take (Suc n) r @ drop (Suc n) r" by simp
    ultimately have "r = g @ adviceEnd @ z" using g by simp
    moreover from Suc.prems g have "g \<noteq> []" by auto
    ultimately show ?thesis by blast
  next
    case False
    with Suc show ?thesis by simp
  qed
qed

lemma greedyUntil_max:
  "0 < k \<Longrightarrow> k \<le> n \<Longrightarrow> prefix adviceEnd (drop k r) \<Longrightarrow>
   (\<forall>j. k < j \<and> j \<le> n \<longrightarrow> \<not> prefix adviceEnd (drop j r)) \<Longrightarrow>
   greedyUntil n r = Some (take k r)"
proof (induction n)
  case 0
  then show ?case by simp
next
  case (Suc n)
  show ?case
  proof (cases "k = Suc n")
    case True
    with Suc.prems show ?thesis by simp
  next
    case False
    with Suc.prems have kn: "k \<le> n" and "k < Suc n" by simp_all
    with Suc.prems have "\<not> prefix adviceEnd (drop (Suc n) r)" by blast
    moreover from Suc.prems have "\<forall>j. k < j \<and> j \<le> n \<longrightarrow> \<not> prefix adviceEnd (drop j r)" by simp
    ultimately show ?thesis using Suc.IH [OF Suc.prems(1) kn Suc.prems(3)] by simp
  qed
qed

lemma matchAdvice_sound:
  "matchAdvice out = Some g \<Longrightarrow> g \<noteq> [] \<and> (\<exists>a z. out = a @ adviceStart @ g @ adviceEnd @ z)"
proof (induction out)
  case Nil
  then show ?case by simp
next
  case (Cons c cs)
  let ?r = "drop (length adviceStart) (c # cs)"
  show ?case
  proof (cases "prefix adviceStart (c # cs) \<and> greedyUntil (length ?r) ?r \<noteq> None")
    case True
    then obtain g' where g': "greedyUntil (length ?r) ?r = Some g'" by auto
    with True Cons.prems have "g' = g" by (simp add: Let_def)
    with greedyUntil_sound [OF g'] obtain z where g: "g \<noteq> []" and r: "?r = g @ adviceEnd @ z"
      by auto
    from True have "c # cs = adviceStart @ ?r" by (auto simp: prefix_def)
    with r have "c # cs = [] @ adviceStart @ g @ adviceEnd @ z" by simp
    with g show ?thesis by blast
  next
    case False
    with Cons.prems have "matchAdvice cs = Some g" by (auto simp: Let_def split: if_splits option.splits)
    with Cons.IH obtain a z where "g \<noteq> []" and "cs = a @ adviceStart @ g @ adviceEnd @ z" by blast
    then have "g \<noteq> [] \<and> c # cs = (c # a) @ adviceStart @ g @ adviceEnd @ z" by simp
    then show ?thesis by blast
  qed
qed

lemma matchAdvice_absent:
  "\<not> (\<exists>a blk z. out = a @ adviceStart @ blk @ adviceEnd @ z \<and> blk \<noteq> []) \<Longrightarrow> matchAdvice out = None"
proof (rule ccontr)
  assume n: "\<not> (\<exists>a blk z. out = a @ adviceStart @ blk @ adviceEnd @ z \<and> blk \<noteq> [])"
  assume "matchAdvice out \<noteq> None"
  then obtain g where "matchAdvice out = Some g" by auto
  from matchAdvice_sound [OF this] n show False by blast
qed

lemma prefix_append_long: "prefix xs (u @ v) \<Longrightarrow> length xs \<le> length u \<Longrightarrow> prefix xs u"
  by (auto simp: prefix_append)

lemma greedyUntil_block:
  assumes "blk \<noteq> []" and "\<not> js_match (tl adviceEnd @ z) adviceEnd"
  shows "greedyUntil (length (blk @ adviceEnd @ z)) (blk @ adviceEnd @ z) = Some blk"
proof -
  let ?r = "blk @ adviceEnd @ z"
  have later: "\<forall>j. length blk < j \<and> j \<le> length ?r \<longrightarrow> \<not> prefix adviceEnd (drop j ?r)"
  proof (intro allI impI notI)
    fix j
    assume j: "length blk < j \<and> j \<le> length ?r" and p: "prefix adviceEnd (drop j ?r)"
    from j obtain m where m: "j = length blk + Suc m" by (metis less_imp_Suc_add add_Suc_right)
    define X where "X = tl adviceEnd @ z"
    have eq: "adviceEnd @ z = hd adviceEnd # X" by (simp add: adviceEnd_def X_def)
    have "drop (Suc m) (adviceEnd @ z) = drop m X" by (subst eq) simp
    with m have "drop j ?r = drop m X" by simp
    with p obtain z' where "drop m X = adviceEnd @ z'" by (auto simp: prefix_def)
    then have "X = take m X @ adviceEnd @ z'" by (metis append_take_drop_id)
    then have "js_match X adviceEnd" unfolding js_match_iff by blast
    with assms(2) show False by (simp add: X_def)
  qed
  have "prefix adviceEnd (drop (length blk) ?r)" by simp
  from greedyUntil_max [OF _ _ this later] assms(1) show ?thesis by simp
qed

lemma matchAdvice_present:
  assumes "blk \<noteq> []" and "\<not> js_match (tl adviceEnd @ z) adviceEnd"
  shows "\<not> js_match (a @ butlast adviceStart) adviceStart \<Longrightarrow>
         matchAdvice (a @ adviceStart @ blk @ adviceEnd @ z) = Some blk"
proof (induction a)
  case Nil
  let ?r = "blk @ adviceEnd @ z"
  obtain h t where ht: "adviceStart @ ?r = h # t" by (cases "adviceStart @ ?r") (auto simp: adviceStart_def)
  have "prefix adviceStart (h # t)" unfolding ht [symmetric] by simp
  moreover have "drop (length adviceStart) (h # t) = ?r" unfolding ht [symmetric] by simp
  ultimately have "matchAdvice (h # t) = Some blk"
    using greedyUntil_block [OF assms] by (simp add: Let_def)
  then show ?case unfolding ht [symmetric] by simp
next
  case (Cons x a)
  let ?rest = "adviceStart @ blk @ adviceEnd @ z"
  from Cons.prems have np: "\<not> prefix adviceStart (x # a @ butlast adviceStart)"
    and nj: "\<not> js_match (a @ butlast adviceStart) adviceStart" by auto
  have "x # a @ ?rest = (x # a @ butlast adviceStart) @ (last adviceStart # blk @ adviceEnd @ z)"
    by (simp add: adviceStart_def)
  moreover have "length adviceStart \<le> length (x # a @ butlast adviceStart)" by simp
  ultimately have "\<not> prefix adviceStart (x # a @ ?rest)"
    using np prefix_append_long by metis
  then have "matchAdvice (x # a @ ?rest) = matchAdvice (a @ ?rest)" by simp
  with Cons.IH [OF nj] show ?case by simp
qed

lemma find_first:
  "(\<forall>x\<in>set xs. \<not> P x) \<Longrightarrow> P st \<Longrightarrow> find P (xs @ st # ys) = Some st"
  by (induction xs) auto

lemma split_newline_nonempty: "split_newline s \<noteq> []"
  by (induction s) (auto split: list.splits)

lemma failedAtTime_error: "error (failedAtTime p ts H) = None"
  by (simp add: failedAtTime_def Let_def)

lemma failedAtTime_severity: "\<forall>d\<in>set (diagnostics (failedAtTime p ts H)). severity d = Warning"
  by (auto simp: failedAtTime_def Let_def)

lemma failedAtTime_messages: "map message (diagnostics (failedAtTime p ts H)) = H"
  by (simp add: failedAtTime_def Let_def comp_def)

lemma failedAtTime_line_first:
  assumes "steps p = xs @ st # ys"
    and "equalsWithin (Finite (startTime st)) ts (roundToDouble (1 / 10000))"
    and "\<forall>x\<in>set xs. \<not> equalsWithin (Finite (startTime x)) ts (roundToDouble (1 / 10000))"
  shows "\<forall>d\<in>set (diagnostics (failedAtTime p ts H)).
           range_d d = createRangeFromLine (lineIndex st)"
proof -
  have "find (\<lambda>step. equalsWithin (Finite (startTime step)) ts (roundToDouble (1 / 10000)))
          (xs @ st # ys) = Some st"
    using assms(3,2) by (rule find_first)
  with assms(1) show ?thesis by (auto simp: failedAtTime_def Let_def)
qed

lemma failedAtTime_line_none:
  assumes "\<forall>x\<in>set (steps p). \<not> equalsWithin (Finite (startTime x)) ts (roundToDouble (1 / 10000))"
  shows "\<forall>d\<in>set (diagnostics (failedAtTime p ts H)). range_d d = createRangeFromLine 0"
proof -
  have "find (\<lambda>step. equalsWithin (Finite (startTime step)) ts (roundToDouble (1 / 10000)))
          (steps p) = None"
    using assms by (simp add: find_None_iff)
  then show ?thesis by (auto simp: failedAtTime_def Let_def)
qed

lemma analyzeOutput_failure_eq:
  assumes "js_match output ''Plan failed to execute'' \<or> js_match output ''Goal not satisfied''"
  shows "analyzeOutput p None output =
           failedAtTime p (lastTimeStamp output)
             (case matchAdvice output of
                Some g \<Rightarrow> split_newline (trim g)
              | None \<Rightarrow> [''Unidentified error. Run the 'PDDL: Validate plan' command for more info.''])"
  using assms by (auto simp: analyzeOutput_def Let_def split: option.splits)

section \<open>Outcomes of analyzeOutput\<close>

text \<open>
  C5, as the claim states it, leaves the process-level error out of its conditions. The
  code tests the error before it reads the output: with an error object and the output
  \<open>Plan valid\<close> (a validator that printed its verdict and then hit the time limit of
  \<open>spawnSync\<close>), the outcome is the failed one, with one diagnostic and an error string.
\<close>

theorem analyzeOutput_valid_with_process_error:
  "js_match ''Plan valid'' ''Plan valid''
   \<and> \<not> js_match ''Plan valid'' ''Plan failed to execute''
   \<and> \<not> js_match ''Plan valid'' ''Goal not satisfied''
   \<and> \<not> js_match ''Plan valid'' ''Bad plan description!''
   \<and> length (diagnostics (analyzeOutput examplePlan (Some exampleError) ''Plan valid'')) = 1
   \<and> getError (analyzeOutput examplePlan (Some exampleError) ''Plan valid'')
       = Some ''Validate tool failed. spawnSync validate ETIMEDOUT''"
  by (simp add: analyzeOutput_def failed_def getError_def exampleError_def Let_def)

text \<open>
  C5 (amended): when no process-level error occurred and the output matches
  \<open>Plan valid\<close> and none of \<open>Plan failed to execute\<close>, \<open>Goal not satisfied\<close> and
  \<open>Bad plan description!\<close>, analyzeOutput returns an outcome with zero diagnostics and
  no error string (getError yields null).
\<close>

theorem analyzeOutput_valid:
  assumes "js_match output ''Plan valid''"
    and "\<not> js_match output ''Plan failed to execute''"
    and "\<not> js_match output ''Goal not satisfied''"
    and "\<not> js_match output ''Bad plan description!''"
  shows "diagnostics (analyzeOutput p None output) = []
         \<and> getError (analyzeOutput p None output) = None"
  using assms by (simp add: analyzeOutput_def valid_def getError_def)

theorem analyzeOutput_valid_witness:
  "js_match ''Plan valid'' ''Plan valid''
   \<and> \<not> js_match ''Plan valid'' ''Plan failed to execute''
   \<and> \<not> js_match ''Plan valid'' ''Goal not satisfied''
   \<and> \<not> js_match ''Plan valid'' ''Bad plan description!''
   \<and> diagnostics (analyzeOutput examplePlan None ''Plan valid'') = []
   \<and> getError (analyzeOutput examplePlan None ''Plan valid'') = None"
proof -
  have h1: "js_match ''Plan valid'' ''Plan valid''" by simp
  have h2: "\<not> js_match ''Plan valid'' ''Plan failed to execute''" by simp
  have h3: "\<not> js_match ''Plan valid'' ''Goal not satisfied''" by simp
  have h4: "\<not> js_match ''Plan valid'' ''Bad plan description!''" by simp
  from analyzeOutput_valid [OF h1 h2 h3 h4, of examplePlan] h1 h2 h3 h4
  show ?thesis by blast
qed

text \<open>
  C6: when no process-level error occurred and the output matches
  \<open>Bad plan description!\<close> and neither \<open>Plan failed to execute\<close> nor
  \<open>Goal not satisfied\<close>, analyzeOutput returns an outcome with exactly one diagnostic:
  severity Error, on line 0 (columns 0 to 100), with the message
  \<open>Invalid plan description.\<close>
\<close>

theorem analyzeOutput_bad_plan_description:
  assumes "js_match output ''Bad plan description!''"
    and "\<not> js_match output ''Plan failed to execute''"
    and "\<not> js_match output ''Goal not satisfied''"
  shows "diagnostics (analyzeOutput p None output) =
           [\<lparr>range_d = \<lparr>startLine = 0, startCharacter = 0, endLine = 0, endCharacter = 100\<rparr>,
             message = ''Invalid plan description.'', severity = Error\<rparr>]"
  using assms
  by (simp add: analyzeOutput_def invalidPlanDescription_def createDiagnostic_def
      createRangeFromLine_def)

theorem analyzeOutput_bad_plan_description_witness:
  "js_match ''Bad plan description!'' ''Bad plan description!''
   \<and> \<not> js_match ''Bad plan description!'' ''Plan failed to execute''
   \<and> \<not> js_match ''Bad plan description!'' ''Goal not satisfied''
   \<and> diagnostics (analyzeOutput examplePlan None ''Bad plan description!'') =
       [\<lparr>range_d = \<lparr>startLine = 0, startCharacter = 0, endLine = 0, endCharacter = 100\<rparr>,
         message = ''Invalid plan description.'', severity = Error\<rparr>]"
proof -
  have h1: "js_match ''Bad plan description!'' ''Bad plan description!''" by simp
  have h2: "\<not> js_match ''Bad plan description!'' ''Plan failed to execute''" by simp
  have h3: "\<not> js_match ''Bad plan description!'' ''Goal not satisfied''" by simp
  from analyzeOutput_bad_plan_description [OF h1 h2 h3, of examplePlan] h1 h2 h3
  show ?thesis by blast
qed

section \<open>Failed plans: time stamp, repair hints and the line of the diagnostics\<close>

text \<open>
  C1 says that the time stamp is the one of the last \<open>Checking next happening (time T)\<close>
  of the output. The pattern of the code, \<open>(\d+.\d+)\<close>, asks for digits, one more
  character and digits again, so a time the validator prints as a whole number of one or
  two digits is not matched: the loop passes over \<open>(time 3)\<close>. In the output below the
  last happening is at time 3 and the plan has a step that starts at 3, on line 8; the time
  stamp the code extracts is 2.5, the one of the happening before, and the diagnostic is on
  line 7, the line of the step that starts at 2.5.
\<close>

theorem analyzeOutput_skips_whole_number_time:
  "js_match wholeNumberOutput ''Plan failed to execute''
   \<and> js_match wholeNumberOutput ''Checking next happening (time 3)''
   \<and> \<not> js_match (drop 88 wholeNumberOutput) ''Checking next happening (time ''
   \<and> take 32 (drop 56 wholeNumberOutput) = ''Checking next happening (time 3)''
   \<and> steps wholeNumberPlan
       = [\<lparr>startTime = 0, lineIndex = 5\<rparr>, \<lparr>startTime = 5 / 2, lineIndex = 7\<rparr>,
          \<lparr>startTime = 3, lineIndex = 8\<rparr>]
   \<and> execAll wholeNumberOutput = [''2.5'']
   \<and> lastTimeStamp wholeNumberOutput = Finite (5 / 2)
   \<and> diagnostics (analyzeOutput wholeNumberPlan None wholeNumberOutput)
       = [\<lparr>range_d = \<lparr>startLine = 7, startCharacter = 0, endLine = 7, endCharacter = 100\<rparr>,
           message = ''Unidentified error. Run the 'PDDL: Validate plan' command for more info.'',
           severity = Warning\<rparr>]"
  by code_simp

text \<open>
  C9: for an output that matches \<open>Plan failed to execute\<close> or \<open>Goal not satisfied\<close>,
  with no process-level error, and that contains no text the pattern
  \<open>Checking next happening \(time (\d+.\d+)\)\<close> matches, the time stamp keeps its
  initial value -1; then, for a plan whose steps all start at least 1e-4 away from -1, the
  outcome has at least one diagnostic, and every diagnostic is a Warning on line 0.
\<close>

theorem analyzeOutput_no_happening:
  assumes "js_match output ''Plan failed to execute'' \<or> js_match output ''Goal not satisfied''"
    and "\<nexists>pre d1 c d2 post.
           output = pre @ happeningPrefix @ d1 @ c # d2 @ CHR 0x29 # post
           \<and> d1 \<noteq> [] \<and> list_all isDigit d1 \<and> \<not> isLineTerminator c
           \<and> d2 \<noteq> [] \<and> list_all isDigit d2"
    and "\<forall>st\<in>set (steps p). 1 / 10000 \<le> \<bar>startTime st - (- 1)\<bar>"
  shows "lastTimeStamp output = Finite (- 1)
         \<and> diagnostics (analyzeOutput p None output) \<noteq> []
         \<and> (\<forall>d\<in>set (diagnostics (analyzeOutput p None output)).
               severity d = Warning \<and> range_d d = createRangeFromLine 0)"
proof -
  let ?H = "case matchAdvice output of
              Some g \<Rightarrow> split_newline (trim g)
            | None \<Rightarrow> [''Unidentified error. Run the 'PDDL: Validate plan' command for more info.'']"
  have eq: "analyzeOutput p None output = failedAtTime p (lastTimeStamp output) ?H"
    by (rule analyzeOutput_failure_eq [OF assms(1)])
  have ts: "lastTimeStamp output = Finite (- 1)"
    using execAll_none [OF assms(2)] by (rule lastTimeStamp_none)
  have "?H \<noteq> []" by (cases "matchAdvice output") (simp_all add: split_newline_nonempty)
  then have "map message (diagnostics (analyzeOutput p None output)) \<noteq> []"
    unfolding eq failedAtTime_messages .
  then have ne: "diagnostics (analyzeOutput p None output) \<noteq> []" by auto
  have sev: "\<forall>d\<in>set (diagnostics (analyzeOutput p None output)). severity d = Warning"
    unfolding eq by (rule failedAtTime_severity)
  have "\<not> equalsWithin (Finite (startTime x)) (Finite (- 1)) (roundToDouble (1 / 10000))"
    if "x \<in> set (steps p)" for x
  proof -
    from assms(3) that have "1 / 10000 \<le> \<bar>startTime x - (- 1)\<bar>" by (rule bspec)
    then have "\<not> jsLess (mathAbs (roundToDouble (startTime x - (- 1)))) (roundToDouble (1 / 10000))"
      by (rule not_within_tolerance)
    then show ?thesis by (simp add: equalsWithin_def)
  qed
  then have "\<forall>x\<in>set (steps p).
               \<not> equalsWithin (Finite (startTime x)) (Finite (- 1)) (roundToDouble (1 / 10000))"
    by (rule ballI)
  then have "\<forall>d\<in>set (diagnostics (analyzeOutput p None output)). range_d d = createRangeFromLine 0"
    unfolding eq ts by (rule failedAtTime_line_none)
  with ts ne sev show ?thesis by blast
qed

theorem analyzeOutput_no_happening_witness:
  "js_match exampleGoalOutput ''Goal not satisfied''
   \<and> \<not> js_match exampleGoalOutput happeningPrefix
   \<and> list_all (\<lambda>st. 1 / 10000 \<le> \<bar>startTime st - (- 1)\<bar>) (steps examplePlan)
   \<and> lastTimeStamp exampleGoalOutput = Finite (- 1)
   \<and> diagnostics (analyzeOutput examplePlan None exampleGoalOutput) \<noteq> []
   \<and> list_all (\<lambda>d. severity d = Warning \<and> range_d d = createRangeFromLine 0)
       (diagnostics (analyzeOutput examplePlan None exampleGoalOutput))"
proof -
  have m: "js_match exampleGoalOutput ''Goal not satisfied''" by (simp add: exampleGoalOutput_def)
  then have h1: "js_match exampleGoalOutput ''Plan failed to execute''
                 \<or> js_match exampleGoalOutput ''Goal not satisfied''" by simp
  have n: "\<not> js_match exampleGoalOutput happeningPrefix"
    by (simp add: exampleGoalOutput_def happeningPrefix_def)
  have h2: "\<nexists>pre d1 c d2 post.
           exampleGoalOutput = pre @ happeningPrefix @ d1 @ c # d2 @ CHR 0x29 # post
           \<and> d1 \<noteq> [] \<and> list_all isDigit d1 \<and> \<not> isLineTerminator c
           \<and> d2 \<noteq> [] \<and> list_all isDigit d2"
  proof
    assume "\<exists>pre d1 c d2 post.
           exampleGoalOutput = pre @ happeningPrefix @ d1 @ c # d2 @ CHR 0x29 # post
           \<and> d1 \<noteq> [] \<and> list_all isDigit d1 \<and> \<not> isLineTerminator c
           \<and> d2 \<noteq> [] \<and> list_all isDigit d2"
    then obtain pre r where "exampleGoalOutput = pre @ happeningPrefix @ r" by blast
    then have "js_match exampleGoalOutput happeningPrefix" unfolding js_match_iff by blast
    with n show False by simp
  qed
  have far: "list_all (\<lambda>st. 1 / 10000 \<le> \<bar>startTime st - (- 1)\<bar>) (steps examplePlan)"
    by (simp add: examplePlan_def)
  then have h3: "\<forall>st\<in>set (steps examplePlan). 1 / 10000 \<le> \<bar>startTime st - (- 1)\<bar>"
    by (simp only: list_all_iff)
  from analyzeOutput_no_happening [OF h1 h2 h3]
  have "lastTimeStamp exampleGoalOutput = Finite (- 1)
     \<and> diagnostics (analyzeOutput examplePlan None exampleGoalOutput) \<noteq> []
     \<and> list_all (\<lambda>d. severity d = Warning \<and> range_d d = createRangeFromLine 0)
         (diagnostics (analyzeOutput examplePlan None exampleGoalOutput))"
    by (auto simp: list_all_iff)
  with m n far show ?thesis by blast
qed

section \<open>A plan whose problem or domain file is not open\<close>

lemma findProblemFile_foldl_None:
  "foldl (\<lambda>problemFileInfo v.
            case v of
              ProblemFile problemInfo \<Rightarrow>
                if toLowerCase (name problemInfo) = toLowerCase nm
                then Some problemInfo else problemFileInfo
            | _ \<Rightarrow> problemFileInfo) acc files = None
   \<longleftrightarrow> acc = None \<and>
       (\<forall>f\<in>set files. \<forall>problemInfo. f = ProblemFile problemInfo
            \<longrightarrow> toLowerCase (name problemInfo) \<noteq> toLowerCase nm)"
proof (induction files arbitrary: acc)
  case Nil
  then show ?case by simp
next
  case (Cons f files)
  show ?case by (cases f) (auto simp: Cons.IH)
qed

lemma findProblemFile_None_iff:
  "findProblemFile files p = None \<longleftrightarrow>
     (\<forall>f\<in>set files. \<forall>problemInfo. f = ProblemFile problemInfo
          \<longrightarrow> toLowerCase (name problemInfo) \<noteq> toLowerCase (problemName p))"
  unfolding findProblemFile_def by (simp add: findProblemFile_foldl_None)

lemma failed_shape:
  "error (failed p e) = Some (''Validate tool failed. '' @ errMessage e)
   \<and> diagnostics (failed p e) =
       [\<lparr>range_d = \<lparr>startLine = 0, startCharacter = 0, endLine = 0, endCharacter = 100\<rparr>,
         message = ''Validate tool failed. '' @ errMessage e, severity = Error\<rparr>]
   \<and> planInfo (failed p e) = p"
  by (simp add: failed_def Let_def createDiagnostic_def createRangeFromLine_def)

lemma failed_report:
  assumes "r = Inr (failed p e, [OnSuccess (getDiagnostics (failed p e))])"
  shows "\<exists>outcome msg.
           r = Inr (outcome, [OnSuccess (getDiagnostics outcome)])
           \<and> getDiagnostics outcome = [(fileUri p, diagnostics outcome)]
           \<and> getError outcome = Some (''Validate tool failed. '' @ msg)
           \<and> diagnostics outcome =
               [\<lparr>range_d = \<lparr>startLine = 0, startCharacter = 0, endLine = 0, endCharacter = 100\<rparr>,
                 message = ''Validate tool failed. '' @ msg, severity = Error\<rparr>]"
proof -
  have main: "r = Inr (failed p e, [OnSuccess (getDiagnostics (failed p e))])
        \<and> getDiagnostics (failed p e) = [(fileUri p, diagnostics (failed p e))]
        \<and> getError (failed p e) = Some (''Validate tool failed. '' @ errMessage e)
        \<and> diagnostics (failed p e) =
            [\<lparr>range_d = \<lparr>startLine = 0, startCharacter = 0, endLine = 0, endCharacter = 100\<rparr>,
              message = ''Validate tool failed. '' @ errMessage e, severity = Error\<rparr>]"
    using assms failed_shape [of p e] by (simp add: getDiagnostics_def getError_def)
  show ?thesis
    apply (rule exI [where x = "failed p e"])
    apply (rule exI [where x = "errMessage e"])
    apply (rule main)
    done
qed

text \<open>
  C8: when the folder of the plan holds no problem file whose name equals the plan's
  problem name up to letter case, or when it holds one but the workspace has no domain file
  for the problem the loop selected, validatePlanAndReportDiagnostics returns a failed
  outcome: its error string is not null (it starts with \<open>Validate tool failed.\<close>), it has
  exactly one diagnostic, of severity Error on line 0, and the only callback invoked is
  onSuccess, once, with the outcome's diagnostics (a map from the plan's URI to them);
  onError is not invoked.
\<close>

theorem validatePlan_missing_files:
  assumes "getFolderOf ws (fileUri p) = Some files"
    and "(\<forall>f\<in>set files. \<forall>problemInfo. f = ProblemFile problemInfo
            \<longrightarrow> toLowerCase (name problemInfo) \<noteq> toLowerCase (problemName p))
         \<or> (\<exists>problemInfo. findProblemFile files p = Some problemInfo
              \<and> workspaceGetDomainFileFor ws problemInfo = None)"
  shows "\<exists>outcome msg.
           validatePlanAndReportDiagnostics ws child p
             = Inr (outcome, [OnSuccess (getDiagnostics outcome)])
           \<and> getDiagnostics outcome = [(fileUri p, diagnostics outcome)]
           \<and> getError outcome = Some (''Validate tool failed. '' @ msg)
           \<and> diagnostics outcome =
               [\<lparr>range_d = \<lparr>startLine = 0, startCharacter = 0, endLine = 0, endCharacter = 100\<rparr>,
                 message = ''Validate tool failed. '' @ msg, severity = Error\<rparr>]"
proof (cases "findProblemFile files p")
  case None
  note noProblem = None
  let ?e = "\<lparr>errName = ''Error'',
             errMessage = ''No problem file with name '(problem '' @ problemName p
               @ CHR 0x27 # '') and located in the same folder as the plan is not open in the editor.''\<rparr>"
  from assms(1) noProblem
  have "validatePlanAndReportDiagnostics ws child p
          = Inr (failed p ?e, [OnSuccess (getDiagnostics (failed p ?e))])"
    by (simp add: validatePlanAndReportDiagnostics_def Let_def)
  then show ?thesis by (rule failed_report)
next
  case (Some problemInfo)
  let ?none = "\<forall>f\<in>set files. \<forall>problemInfo. f = ProblemFile problemInfo
            \<longrightarrow> toLowerCase (name problemInfo) \<noteq> toLowerCase (problemName p)"
  from Some have "findProblemFile files p \<noteq> None" by simp
  then have "\<not> ?none" by (simp only: findProblemFile_None_iff not_False_eq_True)
  with assms(2) obtain q where "findProblemFile files p = Some q"
    and "workspaceGetDomainFileFor ws q = None" by blast
  with Some have noDomain: "findProblemFile files p = Some problemInfo"
    "workspaceGetDomainFileFor ws problemInfo = None" by simp_all
  let ?e = "\<lparr>errName = ''Error'',
             errMessage = ''No domain file corresponding to problem '' @ CHR 0x27 # name problemInfo
               @ CHR 0x27 # '' and located in the same folder is open in the editor.''\<rparr>"
  from assms(1) noDomain
  have "validatePlanAndReportDiagnostics ws child p
          = Inr (failed p ?e, [OnSuccess (getDiagnostics (failed p ?e))])"
    by (simp add: validatePlanAndReportDiagnostics_def Let_def)
  then show ?thesis by (rule failed_report)
qed

theorem validatePlan_missing_files_witness:
  "getFolderOf planOnlyWorkspace (fileUri examplePlan) = Some [PlanFile examplePlan]
   \<and> findProblemFile [PlanFile examplePlan] examplePlan = None
   \<and> (\<exists>outcome msg.
         validatePlanAndReportDiagnostics planOnlyWorkspace exampleChild examplePlan
           = Inr (outcome, [OnSuccess (getDiagnostics outcome)])
         \<and> getDiagnostics outcome = [(fileUri examplePlan, diagnostics outcome)]
         \<and> getError outcome = Some (''Validate tool failed. '' @ msg)
         \<and> diagnostics outcome =
             [\<lparr>range_d = \<lparr>startLine = 0, startCharacter = 0, endLine = 0, endCharacter = 100\<rparr>,
               message = ''Validate tool failed. '' @ msg, severity = Error\<rparr>])
   \<and> getFolderOf noDomainWorkspace (fileUri examplePlan)
       = Some [PlanFile examplePlan, ProblemFile exampleProblem]
   \<and> findProblemFile [PlanFile examplePlan, ProblemFile exampleProblem] examplePlan
       = Some exampleProblem
   \<and> workspaceGetDomainFileFor noDomainWorkspace exampleProblem = None
   \<and> (\<exists>outcome msg.
         validatePlanAndReportDiagnostics noDomainWorkspace exampleChild examplePlan
           = Inr (outcome, [OnSuccess (getDiagnostics outcome)])
         \<and> getDiagnostics outcome = [(fileUri examplePlan, diagnostics outcome)]
         \<and> getError outcome = Some (''Validate tool failed. '' @ msg)
         \<and> diagnostics outcome =
             [\<lparr>range_d = \<lparr>startLine = 0, startCharacter = 0, endLine = 0, endCharacter = 100\<rparr>,
               message = ''Validate tool failed. '' @ msg, severity = Error\<rparr>])"
proof -
  have f1: "getFolderOf planOnlyWorkspace (fileUri examplePlan) = Some [PlanFile examplePlan]"
    by (simp add: getFolderOf_def planOnlyWorkspace_def examplePlan_def getFolderUri_def)
  have n1: "findProblemFile [PlanFile examplePlan] examplePlan = None"
    by (simp add: findProblemFile_def)
  then have h1: "(\<forall>f\<in>set [PlanFile examplePlan]. \<forall>problemInfo. f = ProblemFile problemInfo
            \<longrightarrow> toLowerCase (name problemInfo) \<noteq> toLowerCase (problemName examplePlan))
         \<or> (\<exists>problemInfo. findProblemFile [PlanFile examplePlan] examplePlan = Some problemInfo
              \<and> workspaceGetDomainFileFor planOnlyWorkspace problemInfo = None)"
    by simp
  have f2: "getFolderOf noDomainWorkspace (fileUri examplePlan)
              = Some [PlanFile examplePlan, ProblemFile exampleProblem]"
    by (simp add: getFolderOf_def noDomainWorkspace_def examplePlan_def getFolderUri_def)
  have n2: "findProblemFile [PlanFile examplePlan, ProblemFile exampleProblem] examplePlan
              = Some exampleProblem"
    by code_simp
  have d2: "workspaceGetDomainFileFor noDomainWorkspace exampleProblem = None"
    by (simp add: workspaceGetDomainFileFor_def getFolderOf_def noDomainWorkspace_def
        exampleProblem_def getFolderUri_def getDomainFilesFor_def)
  have h2: "(\<forall>f\<in>set [PlanFile examplePlan, ProblemFile exampleProblem].
            \<forall>problemInfo. f = ProblemFile problemInfo
            \<longrightarrow> toLowerCase (name problemInfo) \<noteq> toLowerCase (problemName examplePlan))
         \<or> (\<exists>problemInfo.
              findProblemFile [PlanFile examplePlan, ProblemFile exampleProblem] examplePlan
                = Some problemInfo
              \<and> workspaceGetDomainFileFor noDomainWorkspace problemInfo = None)"
    using n2 d2 by (intro disjI2 exI [where x = exampleProblem] conjI)
  note w1 = validatePlan_missing_files [OF f1 h1, of exampleChild]
  note w2 = validatePlan_missing_files [OF f2 h2, of exampleChild]
  show ?thesis
    apply (intro conjI)
          apply (rule f1)
         apply (rule n1)
        apply (rule w1)
       apply (rule f2)
      apply (rule n2)
     apply (rule d2)
    apply (rule w2)
    done
qed

section \<open>Properties of the validation scheduler (Diagnostics.ts)\<close>

subsection \<open>Writes to a file of the workspace\<close>

lemma fileUriOf_setStatus [simp]: "fileUriOf (setStatus s f) = fileUriOf f"
  by (cases f) simp_all

lemma getStatus_setStatus [simp]: "getStatus (setStatus s f) = s"
  by (cases f) simp_all

lemma setStatus_setStatus [simp]: "setStatus s (setStatus s' f) = setStatus s f"
  by (cases f) simp_all

lemma kind_setStatus [simp]:
  "isUnknownPddl (setStatus s f) = isUnknownPddl f"
  "isDomain (setStatus s f) = isDomain f"
  "isProblem (setStatus s f) = isProblem f"
  "isPlan (setStatus s f) = isPlan f"
  by (cases f; simp)+

lemma allFiles_updateFile:
  "allFiles (updateFile uri g ws) = map (\<lambda>f. if fileUriOf f = uri then g f else f) (allFiles ws)"
proof -
  have "concat (map snd (map (\<lambda>(folderUri, files).
          (folderUri, map (\<lambda>f. if fileUriOf f = uri then g f else f) files)) fs))
        = map (\<lambda>f. if fileUriOf f = uri then g f else f) (concat (map snd fs))" for fs
    by (induction fs) auto
  then show ?thesis by (simp add: allFiles_def updateFile_def)
qed

lemma folders_updateFile_keys:
  "map fst (folders (updateFile uri g ws)) = map fst (folders ws)"
  by (simp add: updateFile_def case_prod_beta comp_def)

lemma pddlWorkspace_validateUnknownFile:
  "pddlWorkspace (validateUnknownFile cr this f)
     = updateFile (fileUriOf f) (setStatus Validated)
         (updateFile (fileUriOf f) (setStatus Validating) (pddlWorkspace this))"
  by (simp add: validateUnknownFile_def Let_def setFileStatus_def sendDiagnostic_def
      clearDiagnostics_def)

lemma allFiles_validateUnknownFile:
  "allFiles (pddlWorkspace (validateUnknownFile cr this f))
     = map (\<lambda>g. if fileUriOf g = fileUriOf f then setStatus Validated g else g)
         (allFiles (pddlWorkspace this))"
  by (simp add: pddlWorkspace_validateUnknownFile allFiles_updateFile comp_def)

lemma diagnosticCollection_validateUnknownFile:
  "diagnosticCollection (validateUnknownFile cr this f)
     = (if textOf f \<noteq> []
        then (diagnosticCollection this)
               (fileUriOf f \<mapsto>
                  [\<lparr>range_d = cr 0 0,
                    message = ''Cannot recognize whether this is a domain or problem: ''
                                @ firstLineOf (textOf f),
                    severity = Error\<rparr>])
        else (diagnosticCollection this)(fileUriOf f := None))"
  by (simp add: validateUnknownFile_def Let_def setFileStatus_def sendDiagnostic_def
      clearDiagnostics_def)

subsection \<open>Files whose header does not parse\<close>

text \<open>
  C10: for every file, \<open>validateUnknownFile\<close> returns, and in the state it returns every
  file of the workspace with that URI has status Validated (the file itself, if it is in
  the workspace). When the text of the file is not empty, the diagnostics of the file are
  exactly one diagnostic of severity Error whose message is \<open>Cannot recognize whether this
  is a domain or problem: \<close> followed by the first line of the text; when the text is empty,
  no diagnostic is sent and the entry of the file in the collection is removed. The
  diagnostics of every other file are untouched.
\<close>

theorem validateUnknownFile_result:
  "(\<forall>g\<in>set (allFiles (pddlWorkspace (validateUnknownFile cr this f))).
       fileUriOf g = fileUriOf f \<longrightarrow> getStatus g = Validated)
   \<and> (f \<in> set (allFiles (pddlWorkspace this))
        \<longrightarrow> setStatus Validated f \<in> set (allFiles (pddlWorkspace (validateUnknownFile cr this f))))
   \<and> (textOf f \<noteq> []
        \<longrightarrow> diagnosticCollection (validateUnknownFile cr this f) (fileUriOf f)
              = Some [\<lparr>range_d = cr 0 0,
                       message = ''Cannot recognize whether this is a domain or problem: ''
                                   @ firstLineOf (textOf f),
                       severity = Error\<rparr>])
   \<and> (textOf f = []
        \<longrightarrow> diagnosticCollection (validateUnknownFile cr this f) (fileUriOf f) = None)
   \<and> (\<forall>u. u \<noteq> fileUriOf f
        \<longrightarrow> diagnosticCollection (validateUnknownFile cr this f) u = diagnosticCollection this u)"
proof -
  have a: "\<forall>g\<in>set (allFiles (pddlWorkspace (validateUnknownFile cr this f))).
             fileUriOf g = fileUriOf f \<longrightarrow> getStatus g = Validated"
    by (auto simp: allFiles_validateUnknownFile)
  have b: "f \<in> set (allFiles (pddlWorkspace this))
        \<longrightarrow> setStatus Validated f \<in> set (allFiles (pddlWorkspace (validateUnknownFile cr this f)))"
    by (auto simp: allFiles_validateUnknownFile)
  have c: "textOf f \<noteq> []
        \<longrightarrow> diagnosticCollection (validateUnknownFile cr this f) (fileUriOf f)
              = Some [\<lparr>range_d = cr 0 0,
                       message = ''Cannot recognize whether this is a domain or problem: ''
                                   @ firstLineOf (textOf f),
                       severity = Error\<rparr>]"
    by (simp add: diagnosticCollection_validateUnknownFile)
  have d: "textOf f = []
        \<longrightarrow> diagnosticCollection (validateUnknownFile cr this f) (fileUriOf f) = None"
    by (simp add: diagnosticCollection_validateUnknownFile)
  have e: "\<forall>u. u \<noteq> fileUriOf f
        \<longrightarrow> diagnosticCollection (validateUnknownFile cr this f) u = diagnosticCollection this u"
    by (simp add: diagnosticCollection_validateUnknownFile)
  from a b c d e show ?thesis by (intro conjI)
qed

theorem validateUnknownFile_result_witness:
  "UnknownFile unknownWithText \<in> set (allFiles (pddlWorkspace (diagnosticsOf exampleWorkspace)))
   \<and> textOf (UnknownFile unknownWithText) \<noteq> []
   \<and> UnknownFile (unknownWithText\<lparr>status := Validated\<rparr>)
       \<in> set (allFiles (pddlWorkspace
              (validateUnknownFile exampleRange (diagnosticsOf exampleWorkspace)
                 (UnknownFile unknownWithText))))
   \<and> diagnosticCollection
         (validateUnknownFile exampleRange (diagnosticsOf exampleWorkspace)
            (UnknownFile unknownWithText)) ''file:///w/draft.pddl''
       = Some [\<lparr>range_d = \<lparr>startLine = 0, startCharacter = 0, endLine = 0, endCharacter = 100\<rparr>,
                message = ''Cannot recognize whether this is a domain or problem: (defin (domain rover))'',
                severity = Error\<rparr>]
   \<and> textOf (UnknownFile unknownEmpty) = []
   \<and> diagnosticCollection (diagnosticsOf exampleWorkspace) ''file:///w/empty.pddl''
       = Some [staleDiagnostic]
   \<and> diagnosticCollection
         (validateUnknownFile exampleRange (diagnosticsOf exampleWorkspace)
            (UnknownFile unknownEmpty)) ''file:///w/empty.pddl''
       = None"
proof -
  let ?d = "diagnosticsOf exampleWorkspace"
  have m: "UnknownFile unknownWithText \<in> set (allFiles (pddlWorkspace ?d))"
    by (simp add: diagnosticsOf_def exampleWorkspace_def allFiles_def)
  have t1: "textOf (UnknownFile unknownWithText) \<noteq> []" by (simp add: unknownWithText_def)
  have t2: "textOf (UnknownFile unknownEmpty) = []" by (simp add: unknownEmpty_def)
  have old: "diagnosticCollection ?d ''file:///w/empty.pddl'' = Some [staleDiagnostic]"
    by (simp add: diagnosticsOf_def)
  note R1 = validateUnknownFile_result [of exampleRange ?d "UnknownFile unknownWithText"]
  note R2 = validateUnknownFile_result [of exampleRange ?d "UnknownFile unknownEmpty"]
  from R1 [THEN conjunct2, THEN conjunct1, rule_format, OF m]
  have a: "UnknownFile (unknownWithText\<lparr>status := Validated\<rparr>)
       \<in> set (allFiles (pddlWorkspace
              (validateUnknownFile exampleRange ?d (UnknownFile unknownWithText))))"
    by simp
  have fl: "firstLineOf (ftext unknownWithText) = ''(defin (domain rover))''"
    by (simp add: unknownWithText_def firstLineOf_def stripComments_def isWhiteSpace_def)
  have u1: "fileUri unknownWithText = ''file:///w/draft.pddl''" by (simp add: unknownWithText_def)
  have u2: "fileUri unknownEmpty = ''file:///w/empty.pddl''" by (simp add: unknownEmpty_def)
  have er: "exampleRange 0 0
              = \<lparr>startLine = 0, startCharacter = 0, endLine = 0, endCharacter = 100\<rparr>"
    by (simp add: exampleRange_def)
  from R1 [THEN conjunct2, THEN conjunct2, THEN conjunct1, rule_format, OF t1]
  have b: "diagnosticCollection
         (validateUnknownFile exampleRange ?d (UnknownFile unknownWithText)) ''file:///w/draft.pddl''
       = Some [\<lparr>range_d = \<lparr>startLine = 0, startCharacter = 0, endLine = 0, endCharacter = 100\<rparr>,
                message = ''Cannot recognize whether this is a domain or problem: (defin (domain rover))'',
                severity = Error\<rparr>]"
    by (simp add: fl u1 er)
  from R2 [THEN conjunct2, THEN conjunct2, THEN conjunct2, THEN conjunct1, rule_format, OF t2]
  have c: "diagnosticCollection
         (validateUnknownFile exampleRange ?d (UnknownFile unknownEmpty)) ''file:///w/empty.pddl''
       = None"
    by (simp add: u2)
  show ?thesis
    apply (intro conjI)
          apply (rule m)
         apply (rule t1)
        apply (rule a)
       apply (rule b)
      apply (rule t2)
     apply (rule old)
    apply (rule c)
    done
qed

subsection \<open>The domain of a problem\<close>

lemma getDomainFileFor_unresolved:
  assumes "map_of (folders (pddlWorkspace this)) (getFolderUri (fileUri problemFile)) = Some files"
    and "length (getDomainFilesFor files problemFile) \<noteq> 1"
  shows "\<exists>msg. getDomainFileFor cr gfn this problemFile
           = Inr (None, setFileStatus (fileUri problemFile) Validated
                          (sendDiagnosticInfo cr this (fileUri problemFile) msg))"
proof (cases "length (getDomainFilesFor files problemFile) > 1")
  case True
  let ?msg = "''There are multiple candidate domains with name ''
                @ domainName problemFile @ '': ''
                @ join '', '' (map (\<lambda>d. gfn (fileUri d)) (getDomainFilesFor files problemFile))"
  from assms(1) True
  have "getDomainFileFor cr gfn this problemFile
          = Inr (None, setFileStatus (fileUri problemFile) Validated
                         (sendDiagnosticInfo cr this (fileUri problemFile) ?msg))"
    by (simp add: getDomainFileFor_def Let_def)
  then show ?thesis by (rule exI [where x = ?msg])
next
  case False
  let ?msg = "''There are no domains open in the same folder with name (domain ''
                @ CHR 0x27 # domainName problemFile
                @ CHR 0x27 # '') open in the editor.''"
  from False assms(2) have "length (getDomainFilesFor files problemFile) = 0" by arith
  with assms(1)
  have "getDomainFileFor cr gfn this problemFile
          = Inr (None, setFileStatus (fileUri problemFile) Validated
                         (sendDiagnosticInfo cr this (fileUri problemFile) ?msg))"
    by (simp add: getDomainFileFor_def Let_def)
  then show ?thesis by (rule exI [where x = ?msg])
qed

text \<open>
  C3: for every problem file whose folder holds no domain file with the domain name the
  problem refers to (up to letter case), or more than one, \<open>getDomainFileFor\<close> throws
  nothing and returns null (\<open>Inr (None, _)\<close>); the diagnostics of the problem file become
  exactly one diagnostic, of severity Information; the diagnostics of the other files are
  unchanged; and the status of the problem file is Validated.
\<close>

theorem getDomainFileFor_no_single_domain:
  assumes "map_of (folders (pddlWorkspace this)) (getFolderUri (fileUri problemFile)) = Some files"
    and "length (getDomainFilesFor files problemFile) = 0
         \<or> 1 < length (getDomainFilesFor files problemFile)"
  shows "\<exists>this' msg.
           getDomainFileFor cr gfn this problemFile = Inr (None, this')
           \<and> diagnosticCollection this' (fileUri problemFile)
               = Some [\<lparr>range_d = cr 0 0, message = msg, severity = Information\<rparr>]
           \<and> (\<forall>u. u \<noteq> fileUri problemFile
                 \<longrightarrow> diagnosticCollection this' u = diagnosticCollection this u)
           \<and> (\<forall>g\<in>set (allFiles (pddlWorkspace this')).
                 fileUriOf g = fileUri problemFile \<longrightarrow> getStatus g = Validated)
           \<and> (ProblemFile problemFile \<in> set (allFiles (pddlWorkspace this))
                 \<longrightarrow> ProblemFile (problemFile\<lparr>status := Validated\<rparr>)
                       \<in> set (allFiles (pddlWorkspace this')))"
proof -
  from assms(2) have "length (getDomainFilesFor files problemFile) \<noteq> 1" by auto
  from getDomainFileFor_unresolved [OF assms(1) this, of cr gfn] obtain msg where
    r: "getDomainFileFor cr gfn this problemFile
          = Inr (None, setFileStatus (fileUri problemFile) Validated
                         (sendDiagnosticInfo cr this (fileUri problemFile) msg))" ..
  let ?this' = "setFileStatus (fileUri problemFile) Validated
                  (sendDiagnosticInfo cr this (fileUri problemFile) msg)"
  have ws: "allFiles (pddlWorkspace ?this')
              = map (\<lambda>g. if fileUriOf g = fileUri problemFile then setStatus Validated g else g)
                  (allFiles (pddlWorkspace this))"
    by (simp add: setFileStatus_def sendDiagnosticInfo_def sendDiagnostic_def allFiles_updateFile)
  have dc: "diagnosticCollection ?this'
              = (diagnosticCollection this)
                  (fileUri problemFile \<mapsto> [\<lparr>range_d = cr 0 0, message = msg, severity = Information\<rparr>])"
    by (simp add: setFileStatus_def sendDiagnosticInfo_def sendDiagnostic_def)
  have a: "diagnosticCollection ?this' (fileUri problemFile)
             = Some [\<lparr>range_d = cr 0 0, message = msg, severity = Information\<rparr>]"
    by (simp add: dc)
  have b: "\<forall>u. u \<noteq> fileUri problemFile
             \<longrightarrow> diagnosticCollection ?this' u = diagnosticCollection this u"
    by (simp add: dc)
  have c: "\<forall>g\<in>set (allFiles (pddlWorkspace ?this')).
             fileUriOf g = fileUri problemFile \<longrightarrow> getStatus g = Validated"
    by (auto simp: ws)
  have d: "ProblemFile problemFile \<in> set (allFiles (pddlWorkspace this))
             \<longrightarrow> ProblemFile (problemFile\<lparr>status := Validated\<rparr>)
                   \<in> set (allFiles (pddlWorkspace ?this'))"
  proof
    assume "ProblemFile problemFile \<in> set (allFiles (pddlWorkspace this))"
    then have "(\<lambda>g. if fileUriOf g = fileUri problemFile then setStatus Validated g else g)
                 (ProblemFile problemFile) \<in> set (allFiles (pddlWorkspace ?this'))"
      unfolding ws by (simp only: set_map) (rule imageI)
    then show "ProblemFile (problemFile\<lparr>status := Validated\<rparr>)
                 \<in> set (allFiles (pddlWorkspace ?this'))" by simp
  qed
  show ?thesis
    apply (rule exI [where x = ?this'])
    apply (rule exI [where x = msg])
    apply (intro conjI)
        apply (rule r)
       apply (rule a)
      apply (rule b)
     apply (rule c)
    apply (rule d)
    done
qed

theorem getDomainFileFor_no_single_domain_witness:
  "map_of (folders (pddlWorkspace (diagnosticsOf noDomainWorkspace)))
       (getFolderUri (fileUri exampleProblem))
     = Some [PlanFile examplePlan, ProblemFile exampleProblem]
   \<and> length (getDomainFilesFor [PlanFile examplePlan, ProblemFile exampleProblem] exampleProblem) = 0
   \<and> (\<exists>this' msg.
         getDomainFileFor exampleRange exampleFileName (diagnosticsOf noDomainWorkspace) exampleProblem
           = Inr (None, this')
         \<and> diagnosticCollection this' (fileUri exampleProblem)
             = Some [\<lparr>range_d = exampleRange 0 0, message = msg, severity = Information\<rparr>]
         \<and> ProblemFile (exampleProblem\<lparr>status := Validated\<rparr>)
             \<in> set (allFiles (pddlWorkspace this')))
   \<and> map_of (folders (pddlWorkspace (diagnosticsOf twoDomainsWorkspace)))
       (getFolderUri (fileUri exampleProblem))
     = Some [DomainFile exampleDomain, ProblemFile exampleProblem, DomainFile otherDomain]
   \<and> length (getDomainFilesFor
               [DomainFile exampleDomain, ProblemFile exampleProblem, DomainFile otherDomain]
               exampleProblem) = 2
   \<and> (\<exists>this' msg.
         getDomainFileFor exampleRange exampleFileName (diagnosticsOf twoDomainsWorkspace) exampleProblem
           = Inr (None, this')
         \<and> diagnosticCollection this' (fileUri exampleProblem)
             = Some [\<lparr>range_d = exampleRange 0 0, message = msg, severity = Information\<rparr>]
         \<and> ProblemFile (exampleProblem\<lparr>status := Validated\<rparr>)
             \<in> set (allFiles (pddlWorkspace this')))"
proof -
  let ?f0 = "[PlanFile examplePlan, ProblemFile exampleProblem]"
  let ?f2 = "[DomainFile exampleDomain, ProblemFile exampleProblem, DomainFile otherDomain]"
  have fo0: "map_of (folders (pddlWorkspace (diagnosticsOf noDomainWorkspace)))
               (getFolderUri (fileUri exampleProblem)) = Some ?f0"
    by (simp add: diagnosticsOf_def noDomainWorkspace_def exampleProblem_def getFolderUri_def)
  have fo2: "map_of (folders (pddlWorkspace (diagnosticsOf twoDomainsWorkspace)))
               (getFolderUri (fileUri exampleProblem)) = Some ?f2"
    by (simp add: diagnosticsOf_def twoDomainsWorkspace_def exampleProblem_def getFolderUri_def)
  have n0: "length (getDomainFilesFor ?f0 exampleProblem) = 0"
    by (simp add: getDomainFilesFor_def)
  have n2: "length (getDomainFilesFor ?f2 exampleProblem) = 2"
    by code_simp
  have m0: "ProblemFile exampleProblem \<in> set (allFiles (pddlWorkspace (diagnosticsOf noDomainWorkspace)))"
    by (simp add: diagnosticsOf_def noDomainWorkspace_def allFiles_def)
  have m2: "ProblemFile exampleProblem \<in> set (allFiles (pddlWorkspace (diagnosticsOf twoDomainsWorkspace)))"
    by (simp add: diagnosticsOf_def twoDomainsWorkspace_def allFiles_def)
  from n0 have h0: "length (getDomainFilesFor ?f0 exampleProblem) = 0
                    \<or> 1 < length (getDomainFilesFor ?f0 exampleProblem)" by simp
  from n2 have h2: "length (getDomainFilesFor ?f2 exampleProblem) = 0
                    \<or> 1 < length (getDomainFilesFor ?f2 exampleProblem)" by simp
  from getDomainFileFor_no_single_domain [OF fo0 h0, of exampleRange exampleFileName]
  obtain this0 msg0 where
    r0: "getDomainFileFor exampleRange exampleFileName (diagnosticsOf noDomainWorkspace) exampleProblem
           = Inr (None, this0)"
    and d0: "diagnosticCollection this0 (fileUri exampleProblem)
             = Some [\<lparr>range_d = exampleRange 0 0, message = msg0, severity = Information\<rparr>]"
    and s0: "ProblemFile exampleProblem \<in> set (allFiles (pddlWorkspace (diagnosticsOf noDomainWorkspace)))
             \<longrightarrow> ProblemFile (exampleProblem\<lparr>status := Validated\<rparr>) \<in> set (allFiles (pddlWorkspace this0))"
    by (elim exE conjE)
  from getDomainFileFor_no_single_domain [OF fo2 h2, of exampleRange exampleFileName]
  obtain this2 msg2 where
    r2: "getDomainFileFor exampleRange exampleFileName (diagnosticsOf twoDomainsWorkspace) exampleProblem
           = Inr (None, this2)"
    and d2: "diagnosticCollection this2 (fileUri exampleProblem)
             = Some [\<lparr>range_d = exampleRange 0 0, message = msg2, severity = Information\<rparr>]"
    and s2: "ProblemFile exampleProblem \<in> set (allFiles (pddlWorkspace (diagnosticsOf twoDomainsWorkspace)))
             \<longrightarrow> ProblemFile (exampleProblem\<lparr>status := Validated\<rparr>) \<in> set (allFiles (pddlWorkspace this2))"
    by (elim exE conjE)
  have e0: "\<exists>this' msg.
         getDomainFileFor exampleRange exampleFileName (diagnosticsOf noDomainWorkspace) exampleProblem
           = Inr (None, this')
         \<and> diagnosticCollection this' (fileUri exampleProblem)
             = Some [\<lparr>range_d = exampleRange 0 0, message = msg, severity = Information\<rparr>]
         \<and> ProblemFile (exampleProblem\<lparr>status := Validated\<rparr>)
             \<in> set (allFiles (pddlWorkspace this'))"
    apply (rule exI [where x = this0])
    apply (rule exI [where x = msg0])
    apply (intro conjI)
      apply (rule r0)
     apply (rule d0)
    apply (rule s0 [rule_format, OF m0])
    done
  have e2: "\<exists>this' msg.
         getDomainFileFor exampleRange exampleFileName (diagnosticsOf twoDomainsWorkspace) exampleProblem
           = Inr (None, this')
         \<and> diagnosticCollection this' (fileUri exampleProblem)
             = Some [\<lparr>range_d = exampleRange 0 0, message = msg, severity = Information\<rparr>]
         \<and> ProblemFile (exampleProblem\<lparr>status := Validated\<rparr>)
             \<in> set (allFiles (pddlWorkspace this'))"
    apply (rule exI [where x = this2])
    apply (rule exI [where x = msg2])
    apply (intro conjI)
      apply (rule r2)
     apply (rule d2)
    apply (rule s2 [rule_format, OF m2])
    done
  show ?thesis
    apply (intro conjI)
         apply (rule fo0)
        apply (rule n0)
       apply (rule e0)
      apply (rule fo2)
     apply (rule n2)
    apply (rule e2)
    done
qed

subsection \<open>The unknown files of a pass\<close>

lemma allFiles_foldl_validateUnknownFile:
  "allFiles (pddlWorkspace (foldl (validateUnknownFile cr) this fs))
     = map (\<lambda>g. if fileUriOf g \<in> fileUriOf ` set fs then setStatus Validated g else g)
         (allFiles (pddlWorkspace this))"
proof (induction fs arbitrary: this)
  case Nil
  then show ?case by simp
next
  case (Cons x xs)
  have "allFiles (pddlWorkspace (foldl (validateUnknownFile cr) this (x # xs)))
          = map (\<lambda>g. if fileUriOf g \<in> fileUriOf ` set xs then setStatus Validated g else g)
              (allFiles (pddlWorkspace (validateUnknownFile cr this x)))"
    by (simp add: Cons.IH)
  also have "\<dots> = map (\<lambda>g. if fileUriOf g \<in> fileUriOf ` set (x # xs)
                              then setStatus Validated g else g)
                      (allFiles (pddlWorkspace this))"
    by (simp add: allFiles_validateUnknownFile comp_def)
  finally show ?case .
qed

lemma filter_map_fixed:
  "(\<And>x. x \<in> set xs \<Longrightarrow> P (h x) = P x) \<Longrightarrow> (\<And>x. x \<in> set xs \<Longrightarrow> P x \<Longrightarrow> h x = x)
   \<Longrightarrow> filter P (map h xs) = filter P xs"
  by (induction xs) auto

lemma distinct_uri_member:
  assumes "distinct (map fileUriOf xs)" and "g \<in> set xs"
  shows "fileUriOf g \<in> fileUriOf ` set (filter P xs) \<longleftrightarrow> P g"
proof
  assume "fileUriOf g \<in> fileUriOf ` set (filter P xs)"
  then obtain g' where g': "g' \<in> set xs" "P g'" "fileUriOf g' = fileUriOf g" by auto
  from assms(1) have "inj_on fileUriOf (set xs)" by (simp add: distinct_map)
  with g' assms(2) have "g' = g" by (auto dest: inj_onD)
  with g' show "P g" by simp
next
  assume "P g"
  with assms(2) show "fileUriOf g \<in> fileUriOf ` set (filter P xs)" by auto
qed

lemma kinds_exclusive:
  "isDomain f \<Longrightarrow> \<not> isUnknownPddl f"
  "isProblem f \<Longrightarrow> \<not> isUnknownPddl f"
  "isPlan f \<Longrightarrow> \<not> isUnknownPddl f"
  by (cases f; simp)+

lemma validateAllDirty_unknowns:
  assumes "distinct (map fileUriOf (allFiles (pddlWorkspace this)))"
  shows "allFiles (pddlWorkspace
           (foldl (validateUnknownFile cr) this
              (getAllFilesIf (pddlWorkspace this)
                 (\<lambda>fileInfo. isUnknownPddl fileInfo \<and> getStatus fileInfo = Parsed))))
         = map (\<lambda>g. if isUnknownPddl g \<and> getStatus g = Parsed then setStatus Validated g else g)
             (allFiles (pddlWorkspace this))"
proof -
  have eq: "(fileUriOf g \<in> fileUriOf `
               set (filter (\<lambda>fileInfo. isUnknownPddl fileInfo \<and> getStatus fileInfo = Parsed)
                      (allFiles (pddlWorkspace this))))
            = (isUnknownPddl g \<and> getStatus g = Parsed)"
    if "g \<in> set (allFiles (pddlWorkspace this))" for g
    using distinct_uri_member [OF assms that] .
  show ?thesis
    unfolding allFiles_foldl_validateUnknownFile getAllFilesIf_def
    by (rule map_cong [OF refl]) (simp only: eq)
qed

lemma dirty_filter_unchanged:
  assumes "\<And>f. K f \<Longrightarrow> \<not> isUnknownPddl f" and "\<And>f s. K (setStatus s f) = K f"
  shows "filter (\<lambda>f. K f \<and> getStatus f = Parsed)
           (map (\<lambda>g. if isUnknownPddl g \<and> getStatus g = Parsed then setStatus Validated g else g) xs)
         = filter (\<lambda>f. K f \<and> getStatus f = Parsed) xs"
  by (rule filter_map_fixed) (auto simp: assms)

section \<open>The debounce (Diagnostics.scheduleValidation)\<close>

lemma timerDelayInSeconds_cong:
  "pddlParserSettings a = pddlParserSettings b \<Longrightarrow> timerDelayInSeconds a = timerDelayInSeconds b"
  by (simp add: timerDelayInSeconds_def)

lemma timerDelayInSeconds_pos: "0 < timerDelayInSeconds this"
  by (simp add: timerDelayInSeconds_def defaultTimerDelayInSeconds_def split: option.splits)

lemma scheduleValidation_fresh:
  assumes "\<forall>x\<in>set (pending T). timeout this = Some (fst x)"
  shows "scheduleValidation now (this, T)
           = (this\<lparr>timeout := Some (nextHandle T)\<rparr>,
              T\<lparr>pending := [(nextHandle T, now + timerDelayInSeconds this * 1000)],
                nextHandle := Suc (nextHandle T)\<rparr>)"
proof (cases "timeout this")
  case None
  have "pending T = []"
  proof (cases "pending T")
    case Nil
    then show ?thesis .
  next
    case (Cons x xs)
    then have "x \<in> set (pending T)" by simp
    from assms [rule_format, OF this] None show ?thesis by simp
  qed
  with None show ?thesis
    by (simp add: scheduleValidation_def cancelScheduledValidation_def setTimeout_def)
next
  case (Some h)
  with assms have "filter (\<lambda>(h', due). h' \<noteq> h) (pending T) = []"
    by (auto simp: filter_empty_conv)
  with Some show ?thesis
    by (simp add: scheduleValidation_def cancelScheduledValidation_def clearTimeout_def
        setTimeout_def)
qed

lemma onUpdated_single:
  assumes "\<forall>x\<in>set (pending (timers l)). timeout (scheduler l) = Some (fst x)"
  shows "onUpdated t l =
           \<lparr>scheduler = (scheduler l)\<lparr>timeout := Some (nextHandle (timers l))\<rparr>,
            timers = \<lparr>pending = [(nextHandle (timers l),
                                   t + timerDelayInSeconds (scheduler l) * 1000)],
                      nextHandle = Suc (nextHandle (timers l))\<rparr>,
            sweeps = sweeps l
                     @ map snd (filter (\<lambda>(h, due). due \<le> t) (pending (timers l)))\<rparr>"
proof -
  let ?l1 = "fireDue t l"
  from assms have "\<forall>x\<in>set (pending (timers ?l1)). timeout (scheduler ?l1) = Some (fst x)"
    by (simp add: fireDue_def)
  from scheduleValidation_fresh [OF this, of t]
  show ?thesis
    by (simp add: onUpdated_def Let_def timerDelayInSeconds_def) (simp add: fireDue_def)
qed


lemma onUpdated_invariant:
  assumes "\<forall>x\<in>set (pending (timers l)). timeout (scheduler l) = Some (fst x)"
  shows "length (pending (timers (onUpdated t l))) = 1
         \<and> (\<forall>x\<in>set (pending (timers (onUpdated t l))).
               timeout (scheduler (onUpdated t l)) = Some (fst x))"
  unfolding onUpdated_single [OF assms] by simp

lemma runEdits_invariant:
  assumes "length (pending (timers l)) \<le> 1"
    and "\<forall>x\<in>set (pending (timers l)). timeout (scheduler l) = Some (fst x)"
  shows "length (pending (timers (runEdits ts l))) \<le> 1
         \<and> (\<forall>x\<in>set (pending (timers (runEdits ts l))).
               timeout (scheduler (runEdits ts l)) = Some (fst x))"
  using assms
proof (induction ts arbitrary: l)
  case Nil
  then show ?case by (simp add: runEdits_def)
next
  case (Cons t ts)
  from onUpdated_invariant [OF Cons.prems(2), of t]
  have "length (pending (timers (onUpdated t l))) \<le> 1"
    and "\<forall>x\<in>set (pending (timers (onUpdated t l))).
            timeout (scheduler (onUpdated t l)) = Some (fst x)"
    by simp_all
  from Cons.IH [OF this] show ?case by (simp add: runEdits_def)
qed

lemma fireDue_pending_length:
  "length (pending (timers (fireDue t l))) \<le> length (pending (timers l))"
  by (simp add: fireDue_def)

lemma runEdits_window:
  assumes "editsWithinWindow D (t # ts)"
    and "D = timerDelayInSeconds (scheduler l) * 1000"
    and "pending (timers l) = [(h, t + D)]"
    and "timeout (scheduler l) = Some h"
  shows "sweeps (runEdits ts l) = sweeps l
         \<and> map snd (pending (timers (runEdits ts l))) = [last (t # ts) + D]"
  using assms
proof (induction ts arbitrary: t l h)
  case Nil
  then show ?case by (simp add: runEdits_def)
next
  case (Cons t' ts)
  from Cons.prems(1) have le: "t \<le> t'" and lt: "t' < t + D"
    and rest: "editsWithinWindow D (t' # ts)" by simp_all
  from Cons.prems(3,4)
  have single: "\<forall>x\<in>set (pending (timers l)). timeout (scheduler l) = Some (fst x)" by simp
  let ?l' = "onUpdated t' l"
  note eq = onUpdated_single [OF single, of t']
  have d: "D = timerDelayInSeconds (scheduler ?l') * 1000"
    unfolding eq using Cons.prems(2) by (simp add: timerDelayInSeconds_def)
  have p: "pending (timers ?l') = [(nextHandle (timers l), t' + D)]"
    unfolding eq using Cons.prems(2) by simp
  have h: "timeout (scheduler ?l') = Some (nextHandle (timers l))"
    unfolding eq by simp
  have s: "sweeps ?l' = sweeps l"
    unfolding eq using Cons.prems(3) lt by simp
  from Cons.IH [OF rest d p h] s show ?case by (simp add: runEdits_def)
qed

lemma runEdits_first:
  assumes "D = timerDelayInSeconds (scheduler (newLoop ws settings)) * 1000"
    and "editsWithinWindow D (t # ts)"
  shows "sweeps (runEdits (t # ts) (newLoop ws settings)) = []
         \<and> map snd (pending (timers (runEdits (t # ts) (newLoop ws settings))))
             = [last (t # ts) + D]"
proof -
  let ?init = "newLoop ws settings"
  have single: "\<forall>x\<in>set (pending (timers ?init)). timeout (scheduler ?init) = Some (fst x)"
    by (simp add: newLoop_def)
  let ?next = "onUpdated t ?init"
  note eq = onUpdated_single [OF single, of t]
  have d: "D = timerDelayInSeconds (scheduler ?next) * 1000"
    unfolding eq using assms(1) by (simp add: timerDelayInSeconds_def)
  have p: "pending (timers ?next) = [(nextHandle (timers ?init), t + D)]"
    unfolding eq assms(1) by simp
  have h: "timeout (scheduler ?next) = Some (nextHandle (timers ?init))"
    unfolding eq by simp
  have s: "sweeps ?next = []"
    unfolding eq by (simp add: newLoop_def)
  from runEdits_window [OF assms(2) d p h] s
  show ?thesis by (simp add: runEdits_def)
qed

lemma fireDue_single:
  assumes "map snd (pending (timers l)) = [due]"
  shows "(due \<le> t \<longrightarrow> sweeps (fireDue t l) = sweeps l @ [due]
                      \<and> pending (timers (fireDue t l)) = [])
         \<and> (t < due \<longrightarrow> sweeps (fireDue t l) = sweeps l
                      \<and> pending (timers (fireDue t l)) = pending (timers l))"
proof -
  from assms obtain h where "pending (timers l) = [(h, due)]" by auto
  then show ?thesis by (simp add: fireDue_def)
qed

text \<open>
  C4: \<open>scheduleValidation\<close> is a single-slot trailing debounce. The delay is the configured
  number of seconds, and 3 seconds when the setting is unset (or 0). A call made when every
  pending timer is the one \<open>this.timeout\<close> refers to leaves exactly one pending timer, the
  new one, due after the delay, and \<open>this.timeout\<close> refers to it. Starting from the
  constructor, after any sequence of edits, with the due timers fired in between, at most
  one timer is pending. After one or more edits that arrive within the debounce window, no
  sweep has started and the one pending timer is due at the time of the last edit plus the
  delay; up to that time no sweep starts, and at that time exactly one sweep has started,
  at the time of the last edit plus the delay, and no timer is pending.
\<close>

theorem scheduleValidation_debounce:
  assumes "D = timerDelayInSeconds (scheduler (newLoop ws settings)) * 1000"
  shows
    "(delayInSecondsBeforeParsing settings = None \<or> delayInSecondsBeforeParsing settings = Some 0
        \<longrightarrow> D = 3000)
     \<and> (\<forall>d. delayInSecondsBeforeParsing settings = Some d \<and> 0 < d \<longrightarrow> D = d * 1000)
     \<and> (\<forall>now this T.
           (\<forall>x\<in>set (pending T). timeout this = Some (fst x))
           \<longrightarrow> pending (snd (scheduleValidation now (this, T)))
                 = [(nextHandle T, now + timerDelayInSeconds this * 1000)]
               \<and> timeout (fst (scheduleValidation now (this, T))) = Some (nextHandle T))
     \<and> (\<forall>ts t.
           length (pending (timers (runEdits ts (newLoop ws settings)))) \<le> 1
           \<and> length (pending (timers (fireDue t (runEdits ts (newLoop ws settings))))) \<le> 1)
     \<and> (\<forall>ts.
           ts \<noteq> [] \<and> editsWithinWindow D ts
           \<longrightarrow> sweeps (runEdits ts (newLoop ws settings)) = []
               \<and> map snd (pending (timers (runEdits ts (newLoop ws settings)))) = [last ts + D]
               \<and> (\<forall>t. t < last ts + D
                     \<longrightarrow> sweeps (fireDue t (runEdits ts (newLoop ws settings))) = [])
               \<and> (\<forall>t. last ts + D \<le> t
                     \<longrightarrow> sweeps (fireDue t (runEdits ts (newLoop ws settings))) = [last ts + D]
                         \<and> pending (timers (fireDue t (runEdits ts (newLoop ws settings)))) = []))"
proof -
  let ?init = "newLoop ws settings"
  have a: "delayInSecondsBeforeParsing settings = None \<or> delayInSecondsBeforeParsing settings = Some 0
        \<longrightarrow> D = 3000"
    using assms
    by (auto simp: timerDelayInSeconds_def newLoop_def defaultTimerDelayInSeconds_def)
  have b: "\<forall>d. delayInSecondsBeforeParsing settings = Some d \<and> 0 < d \<longrightarrow> D = d * 1000"
    using assms by (simp add: timerDelayInSeconds_def newLoop_def)
  have c: "\<forall>now this T.
           (\<forall>x\<in>set (pending T). timeout this = Some (fst x))
           \<longrightarrow> pending (snd (scheduleValidation now (this, T)))
                 = [(nextHandle T, now + timerDelayInSeconds this * 1000)]
               \<and> timeout (fst (scheduleValidation now (this, T))) = Some (nextHandle T)"
    by (simp add: scheduleValidation_fresh)
  have d: "\<forall>ts t.
           length (pending (timers (runEdits ts ?init))) \<le> 1
           \<and> length (pending (timers (fireDue t (runEdits ts ?init)))) \<le> 1"
  proof (intro allI)
    fix ts t
    have "length (pending (timers ?init)) \<le> 1"
      and "\<forall>x\<in>set (pending (timers ?init)). timeout (scheduler ?init) = Some (fst x)"
      by (simp_all add: newLoop_def)
    from runEdits_invariant [OF this, of ts]
    have one: "length (pending (timers (runEdits ts ?init))) \<le> 1" by simp
    with fireDue_pending_length [of t "runEdits ts ?init"]
    have "length (pending (timers (fireDue t (runEdits ts ?init)))) \<le> 1" by simp
    with one show "length (pending (timers (runEdits ts ?init))) \<le> 1
           \<and> length (pending (timers (fireDue t (runEdits ts ?init)))) \<le> 1" by simp
  qed
  have e: "\<forall>ts.
           ts \<noteq> [] \<and> editsWithinWindow D ts
           \<longrightarrow> sweeps (runEdits ts ?init) = []
               \<and> map snd (pending (timers (runEdits ts ?init))) = [last ts + D]
               \<and> (\<forall>t. t < last ts + D \<longrightarrow> sweeps (fireDue t (runEdits ts ?init)) = [])
               \<and> (\<forall>t. last ts + D \<le> t
                     \<longrightarrow> sweeps (fireDue t (runEdits ts ?init)) = [last ts + D]
                         \<and> pending (timers (fireDue t (runEdits ts ?init))) = [])"
  proof (intro allI impI)
    fix ts
    assume "ts \<noteq> [] \<and> editsWithinWindow D ts"
    then obtain t0 rest where ts: "ts = t0 # rest" and w: "editsWithinWindow D (t0 # rest)"
      by (cases ts) simp_all
    from runEdits_first [OF assms w]
    have s: "sweeps (runEdits ts ?init) = []"
      and p: "map snd (pending (timers (runEdits ts ?init))) = [last ts + D]"
      unfolding ts by simp_all
    note f = fireDue_single [OF p]
    have early: "\<forall>t. t < last ts + D \<longrightarrow> sweeps (fireDue t (runEdits ts ?init)) = []"
      using f s by simp
    have late: "\<forall>t. last ts + D \<le> t
                     \<longrightarrow> sweeps (fireDue t (runEdits ts ?init)) = [last ts + D]
                         \<and> pending (timers (fireDue t (runEdits ts ?init))) = []"
      using f s by simp
    from s p early late
    show "sweeps (runEdits ts ?init) = []
               \<and> map snd (pending (timers (runEdits ts ?init))) = [last ts + D]
               \<and> (\<forall>t. t < last ts + D \<longrightarrow> sweeps (fireDue t (runEdits ts ?init)) = [])
               \<and> (\<forall>t. last ts + D \<le> t
                     \<longrightarrow> sweeps (fireDue t (runEdits ts ?init)) = [last ts + D]
                         \<and> pending (timers (fireDue t (runEdits ts ?init))) = [])"
      by (intro conjI)
  qed
  from a b c d e show ?thesis by (intro conjI)
qed

theorem scheduleValidation_debounce_witness:
  "(3000::nat) = timerDelayInSeconds (scheduler (newLoop exampleWorkspace exampleSettings)) * 1000
   \<and> delayInSecondsBeforeParsing exampleSettings = None
   \<and> editsWithinWindow 3000 [0, 1000, 2500, 5000]
   \<and> sweeps (runEdits [0, 1000, 2500, 5000] (newLoop exampleWorkspace exampleSettings)) = []
   \<and> map snd (pending (timers (runEdits [0, 1000, 2500, 5000]
                                  (newLoop exampleWorkspace exampleSettings)))) = [8000]
   \<and> sweeps (fireDue 7999 (runEdits [0, 1000, 2500, 5000]
                              (newLoop exampleWorkspace exampleSettings))) = []
   \<and> sweeps (fireDue 8000 (runEdits [0, 1000, 2500, 5000]
                              (newLoop exampleWorkspace exampleSettings))) = [8000]
   \<and> pending (timers (fireDue 8000 (runEdits [0, 1000, 2500, 5000]
                                       (newLoop exampleWorkspace exampleSettings)))) = []"
proof -
  let ?ts = "[0, 1000, 2500, 5000] :: nat list"
  have n: "delayInSecondsBeforeParsing exampleSettings = None"
    by (simp add: exampleSettings_def)
  have w: "?ts \<noteq> [] \<and> editsWithinWindow 3000 ?ts" by simp
  have l: "last ?ts + 3000 = 8000" by simp
  have dd: "(3000::nat) = timerDelayInSeconds (scheduler (newLoop exampleWorkspace exampleSettings)) * 1000"
    by (simp add: timerDelayInSeconds_def newLoop_def exampleSettings_def
        defaultTimerDelayInSeconds_def)
  note T = scheduleValidation_debounce [OF dd]
  note E = T [THEN conjunct2, THEN conjunct2, THEN conjunct2, THEN conjunct2, rule_format, OF w,
      unfolded l]
  have early: "(7999::nat) < 8000" by simp
  have late: "(8000::nat) \<le> 8000" by simp
  show ?thesis
    apply (intro conjI)
           apply (rule dd)
          apply (rule n)
         apply (rule w [THEN conjunct2])
        apply (rule E [THEN conjunct1])
       apply (rule E [THEN conjunct2, THEN conjunct1])
      apply (rule E [THEN conjunct2, THEN conjunct2, THEN conjunct1, rule_format, OF early])
     apply (rule E [THEN conjunct2, THEN conjunct2, THEN conjunct2, rule_format, OF late,
                    THEN conjunct1])
    apply (rule E [THEN conjunct2, THEN conjunct2, THEN conjunct2, rule_format, OF late,
                   THEN conjunct2])
    done
qed

section \<open>A validation pass\<close>

subsection \<open>What a pass leaves untouched\<close>

lemma allFiles_setFileStatus:
  "allFiles (pddlWorkspace (setFileStatus uri s this))
     = map (\<lambda>f. if fileUriOf f = uri then setStatus s f else f) (allFiles (pddlWorkspace this))"
  by (simp add: setFileStatus_def allFiles_updateFile)

lemma plans_setFileStatus:
  assumes "\<forall>f\<in>set (allFiles (pddlWorkspace this)). isPlan f \<longrightarrow> fileUriOf f \<noteq> uri"
  shows "filter isPlan (allFiles (pddlWorkspace (setFileStatus uri s this)))
           = filter isPlan (allFiles (pddlWorkspace this))"
  unfolding allFiles_setFileStatus
  using assms by (intro filter_map_fixed) auto

lemma ball_map_preserved:
  "(\<And>x. P (h x) = P x) \<Longrightarrow> (\<forall>f\<in>set (map h xs). P f) \<longleftrightarrow> (\<forall>f\<in>set xs. P f)"
  by simp

lemma planUris_setFileStatus:
  "(\<forall>f\<in>set (allFiles (pddlWorkspace (setFileStatus uri' s this))). isPlan f \<longrightarrow> fileUriOf f \<noteq> uri)
   \<longleftrightarrow> (\<forall>f\<in>set (allFiles (pddlWorkspace this)). isPlan f \<longrightarrow> fileUriOf f \<noteq> uri)"
  unfolding allFiles_setFileStatus by (rule ball_map_preserved) simp

lemma plans_foldl_setFileStatus:
  assumes "\<forall>p\<in>set ps. \<forall>f\<in>set (allFiles (pddlWorkspace this)). isPlan f \<longrightarrow> fileUriOf f \<noteq> fileUri p"
  shows "filter isPlan
           (allFiles (pddlWorkspace
              (foldl (\<lambda>this p. setFileStatus (fileUri p) Validating this) this ps)))
         = filter isPlan (allFiles (pddlWorkspace this))"
  using assms
proof (induction ps arbitrary: this)
  case Nil
  then show ?case by simp
next
  case (Cons p ps)
  from Cons.prems
  have here: "\<forall>f\<in>set (allFiles (pddlWorkspace this)). isPlan f \<longrightarrow> fileUriOf f \<noteq> fileUri p"
    by simp
  from Cons.prems
  have "\<forall>q\<in>set ps. \<forall>f\<in>set (allFiles (pddlWorkspace (setFileStatus (fileUri p) Validating this))).
          isPlan f \<longrightarrow> fileUriOf f \<noteq> fileUri q"
    by (simp add: planUris_setFileStatus)
  from Cons.IH [OF this] plans_setFileStatus [OF here, of Validating]
  show ?case by simp
qed

lemma workspace_sendDiagnostics [simp]:
  "pddlWorkspace (sendDiagnostics this diags) = pddlWorkspace this"
  unfolding sendDiagnostics_def by (induction diags arbitrary: this) simp_all

lemma timeout_sendDiagnostics [simp]:
  "timeout (sendDiagnostics this diags) = timeout this"
  unfolding sendDiagnostics_def by (induction diags arbitrary: this) simp_all

lemma settings_sendDiagnostics [simp]:
  "pddlParserSettings (sendDiagnostics this diags) = pddlParserSettings this"
  unfolding sendDiagnostics_def by (induction diags arbitrary: this) simp_all

lemma workspace_scheduleValidation [simp]:
  "pddlWorkspace (fst (scheduleValidation now (this, T))) = pddlWorkspace this"
  by (simp add: scheduleValidation_def Let_def split: prod.splits)

lemma workspace_validationSucceeded [simp]:
  "pddlWorkspace (self (validationSucceeded now flag diags r)) = pddlWorkspace (self r)"
proof -
  have "pddlWorkspace (fst (scheduleValidation now (sendDiagnostics (self r) diags, timerTable r)))
          = pddlWorkspace (self r)"
    by simp
  then show ?thesis
    by (cases "scheduleValidation now (sendDiagnostics (self r) diags, timerTable r)")
       (simp add: validationSucceeded_def Let_def)
qed

lemma workspace_createValidator:
  "createValidator this = Inr (v, this') \<Longrightarrow> pddlWorkspace this' = pddlWorkspace this"
  by (auto simp: createValidator_def Let_def split: if_splits option.splits)

lemma workspace_parser_callbacks:
  "pddlWorkspace (self (foldl (\<lambda>r cb.
       case cb of
         OnSuccess diags \<Rightarrow> validationSucceeded now flag diags r
       | OnError err \<Rightarrow> parserValidationFailed err r) r cbs)) = pddlWorkspace (self r)"
  by (induction cbs arbitrary: r) (simp_all add: parserValidationFailed_def split: callback.splits)

lemma workspace_plan_callbacks:
  "pddlWorkspace (self (foldl (\<lambda>r cb.
       case cb of
         OnSuccess diags \<Rightarrow> validationSucceeded now flag diags r
       | OnError err \<Rightarrow> planValidationFailed err r) r cbs)) = pddlWorkspace (self r)"
  by (induction cbs arbitrary: r) (simp_all add: planValidationFailed_def split: callback.splits)

lemma plans_validateDomainAndProblems:
  assumes "validateDomainAndProblems env d ps flag r = Inr r'"
    and "\<forall>f\<in>set (allFiles (pddlWorkspace (self r))). isPlan f \<longrightarrow> fileUriOf f \<noteq> fileUri d"
    and "\<forall>p\<in>set ps. \<forall>f\<in>set (allFiles (pddlWorkspace (self r))).
           isPlan f \<longrightarrow> fileUriOf f \<noteq> fileUri p"
  shows "filter isPlan (allFiles (pddlWorkspace (self r')))
           = filter isPlan (allFiles (pddlWorkspace (self r)))"
proof (cases "executableOrService (pddlParserSettings (self r)) = None
              \<or> executableOrService (pddlParserSettings (self r)) = Some []")
  case True
  with assms(1) have "r' = r\<lparr>effects := effects r @ [SuggestNewParserConfiguration True]\<rparr>"
    by (auto simp: validateDomainAndProblems_def Let_def)
  then show ?thesis by simp
next
  case False
  let ?this1 = "setFileStatus (fileUri d) Validating (self r)"
  let ?this2 = "foldl (\<lambda>this p. setFileStatus (fileUri p) Validating this) ?this1 ps"
  from False assms(1) obtain v this3 where cv: "createValidator ?this2 = Inr (v, this3)"
    and r': "r' = foldl (\<lambda>r cb.
                           case cb of
                             OnSuccess diags \<Rightarrow>
                               validationSucceeded (clockAtValidate env) flag diags r
                           | OnError err \<Rightarrow> parserValidationFailed err r)
                    (r\<lparr>self := this3,
                       effects := effects r
                         @ [ValidatorValidate v (fileUri d) (map fileUri ps) flag]\<rparr>)
                    (validatorCallbacks env)"
    by (auto simp: validateDomainAndProblems_def Let_def split: sum.splits)
  have w: "pddlWorkspace (self r') = pddlWorkspace ?this2"
    unfolding r' workspace_parser_callbacks using workspace_createValidator [OF cv] by simp
  from assms(3)
  have "\<forall>p\<in>set ps. \<forall>f\<in>set (allFiles (pddlWorkspace ?this1)).
          isPlan f \<longrightarrow> fileUriOf f \<noteq> fileUri p"
    by (simp add: planUris_setFileStatus)
  from plans_foldl_setFileStatus [OF this] plans_setFileStatus [OF assms(2), of Validating]
  show ?thesis unfolding w by simp
qed

lemma getDomainFileFor_result:
  assumes "getDomainFileFor cr gfn this q = Inr (res, this1)"
  shows "(res = None \<longrightarrow>
            (\<exists>msg. this1 = setFileStatus (fileUri q) Validated
                              (sendDiagnosticInfo cr this (fileUri q) msg)))
         \<and> (\<forall>dom. res = Some dom \<longrightarrow>
               this1 = this \<and> DomainFile dom \<in> set (allFiles (pddlWorkspace this)))"
proof (cases "map_of (folders (pddlWorkspace this)) (getFolderUri (fileUri q))")
  case None
  with assms show ?thesis by (simp add: getDomainFileFor_def)
next
  case (Some files)
  show ?thesis
  proof (cases "length (getDomainFilesFor files q) = 1")
    case False
    from getDomainFileFor_unresolved [OF Some False, of cr gfn] assms show ?thesis by auto
  next
    case True
    then obtain dom where one: "getDomainFilesFor files q = [dom]"
      by (cases "getDomainFilesFor files q") simp_all
    with Some assms have res: "res = Some dom" "this1 = this"
      by (simp_all add: getDomainFileFor_def Let_def)
    from one have "dom \<in> set (getDomainFilesFor files q)" by simp
    then have "DomainFile dom \<in> set files"
      by (auto simp: getDomainFilesFor_def split: PddlFile.splits if_splits)
    moreover from Some have "(getFolderUri (fileUri q), files) \<in> set (folders (pddlWorkspace this))"
      by (rule map_of_SomeD)
    ultimately have "DomainFile dom \<in> set (allFiles (pddlWorkspace this))"
      by (force simp: allFiles_def)
    with res show ?thesis by simp
  qed
qed

lemma distinct_not_plan_uri:
  assumes "distinct (map fileUriOf xs)" and "g \<in> set xs" and "\<not> isPlan g"
  shows "\<forall>f\<in>set xs. isPlan f \<longrightarrow> fileUriOf f \<noteq> fileUriOf g"
proof (intro ballI impI notI)
  fix f assume f: "f \<in> set xs" "isPlan f" "fileUriOf f = fileUriOf g"
  from assms(1) have "inj_on fileUriOf (set xs)" by (simp add: distinct_map)
  with f assms(2) have "f = g" by (auto dest: inj_onD)
  with f assms(3) show False by simp
qed


lemma plans_validatePddlDocument_problem:
  assumes "distinct (map fileUriOf (allFiles (pddlWorkspace (self r))))"
    and "ProblemFile q \<in> set (allFiles (pddlWorkspace (self r)))"
    and "validatePddlDocument cr gfn gpf env (ProblemFile q) flag r = Inr r'"
  shows "filter isPlan (allFiles (pddlWorkspace (self r')))
           = filter isPlan (allFiles (pddlWorkspace (self r)))"
proof -
  have "\<not> isPlan (ProblemFile q)" by simp
  from distinct_not_plan_uri [OF assms(1,2) this]
  have nq: "\<forall>f\<in>set (allFiles (pddlWorkspace (self r))). isPlan f \<longrightarrow> fileUriOf f \<noteq> fileUri q"
    by simp
  show ?thesis
  proof (cases "getDomainFileFor cr gfn (self r) q")
    case (Inl e)
    with assms(3) show ?thesis by (simp add: validatePddlDocument_def)
  next
    case (Inr a)
    obtain res this1 where a: "a = (res, this1)" by (cases a)
    note g = getDomainFileFor_result [OF Inr [unfolded a]]
    show ?thesis
    proof (cases res)
      case None
      with g obtain msg where this1: "this1 = setFileStatus (fileUri q) Validated
                                          (sendDiagnosticInfo cr (self r) (fileUri q) msg)"
        by blast
      from Inr a None assms(3) have r': "r' = r\<lparr>self := this1\<rparr>"
        by (simp add: validatePddlDocument_def)
      have w: "pddlWorkspace (sendDiagnosticInfo cr (self r) (fileUri q) msg)
                 = pddlWorkspace (self r)"
        by (simp add: sendDiagnosticInfo_def sendDiagnostic_def)
      from nq have "\<forall>f\<in>set (allFiles (pddlWorkspace
                        (sendDiagnosticInfo cr (self r) (fileUri q) msg))).
                      isPlan f \<longrightarrow> fileUriOf f \<noteq> fileUri q"
        unfolding w .
      from plans_setFileStatus [OF this, of Validated] show ?thesis
        unfolding r' this1 w by simp
    next
      case (Some dom)
      with g have this1: "this1 = self r"
        and dom: "DomainFile dom \<in> set (allFiles (pddlWorkspace (self r)))" by simp_all
      have "\<not> isPlan (DomainFile dom)" by simp
      from distinct_not_plan_uri [OF assms(1) dom this]
      have nd: "\<forall>f\<in>set (allFiles (pddlWorkspace (self r))).
                  isPlan f \<longrightarrow> fileUriOf f \<noteq> fileUri dom"
        by simp
      from Inr a Some this1 assms(3)
      have v: "validateDomainAndProblems env dom [q] flag r = Inr r'"
        by (simp add: validatePddlDocument_def)
      from nq have "\<forall>p\<in>set [q]. \<forall>f\<in>set (allFiles (pddlWorkspace (self r))).
                      isPlan f \<longrightarrow> fileUriOf f \<noteq> fileUri p"
        by simp
      from plans_validateDomainAndProblems [OF v nd this] show ?thesis .
    qed
  qed
qed

lemma dirty_plans_as_filter:
  "getAllFilesIf ws (\<lambda>f. isPlan f \<and> getStatus f = Parsed)
     = filter (\<lambda>f. getStatus f = Parsed) (filter isPlan (allFiles ws))"
  by (simp add: getAllFilesIf_def)

lemma plans_unknown_tier:
  "filter isPlan
     (map (\<lambda>g. if isUnknownPddl g \<and> getStatus g = Parsed then setStatus Validated g else g) xs)
   = filter isPlan xs"
  by (rule filter_map_fixed) (auto simp: kinds_exclusive)

lemma pending_validationSucceeded:
  assumes "\<forall>x\<in>set (pending (timerTable s)). timeout (self s) = Some (fst x)"
  shows "pending (timerTable (validationSucceeded now flag diags s))
           = (if flag then [(nextHandle (timerTable s), now + timerDelayInSeconds (self s) * 1000)]
              else pending (timerTable s))"
proof (cases flag)
  case False
  then show ?thesis by (simp add: validationSucceeded_def Let_def)
next
  case True
  let ?this1 = "sendDiagnostics (self s) diags"
  from assms have "\<forall>x\<in>set (pending (timerTable s)). timeout ?this1 = Some (fst x)" by simp
  note f = scheduleValidation_fresh [OF this, of now]
  have d: "timerDelayInSeconds ?this1 = timerDelayInSeconds (self s)"
    by (rule timerDelayInSeconds_cong) simp
  from True show ?thesis by (simp add: validationSucceeded_def Let_def f d)
qed

lemma validatePlan_succeeded:
  assumes "validatorPath env \<noteq> []"
    and "validatePlanAndReportDiagnostics
           (pddlWorkspace (setFileStatus (fileUri l) Validating (self s)))
           (spawnSyncReturns env) (l\<lparr>status := Validating\<rparr>) = Inr (outcome, [OnSuccess diags])"
  shows "validatePlan env l flag s
           = validationSucceeded (clockAfterSpawn env) flag diags
               (s\<lparr>self := setFileStatus (fileUri l) Validating (self s)\<rparr>)"
  using assms by (simp add: validatePlan_def Let_def)


lemma validateAllDirty_unfold:
  assumes "r1 = r\<lparr>self := foldl (validateUnknownFile cr) (self r)
                  (getAllFilesIf (pddlWorkspace (self r))
                     (\<lambda>f. isUnknownPddl f \<and> getStatus f = Parsed))\<rparr>"
    and "getAllFilesIf (pddlWorkspace (self r1)) (\<lambda>f. isDomain f \<and> getStatus f = Parsed) = D"
    and "getAllFilesIf (pddlWorkspace (self r1)) (\<lambda>f. isProblem f \<and> getStatus f = Parsed) = P"
  shows "validateAllDirty cr gfn gpf env r =
     (case D of
        firstDirtyDomain # otherDomains \<Rightarrow>
          validatePddlDocument cr gfn gpf env firstDirtyDomain (length D > 1) r1
      | [] \<Rightarrow>
          (case (case P of
                   firstDirtyProblem # otherProblems \<Rightarrow>
                     validatePddlDocument cr gfn gpf env firstDirtyProblem (length P > 1) r1
                 | [] \<Rightarrow> Inr r1) of
             Inl e \<Rightarrow> Inl e
           | Inr r2 \<Rightarrow>
               (case getAllFilesIf (pddlWorkspace (self r2))
                       (\<lambda>f. isPlan f \<and> getStatus f = Parsed) of
                  PlanFile firstDirtyPlan # otherPlans \<Rightarrow>
                    Inr (validatePlan env firstDirtyPlan
                           (length (getAllFilesIf (pddlWorkspace (self r2))
                                      (\<lambda>f. isPlan f \<and> getStatus f = Parsed)) > 1) r2)
                | other \<Rightarrow> Inr r2)))"
  unfolding validateAllDirty_def Let_def assms(1) [symmetric] assms(2) assms(3) ..

lemma exampleProblemFiles_open:
  "p \<in> set (exampleProblemFiles ws d) \<Longrightarrow> ProblemFile p \<in> set (allFiles ws)"
  by (auto simp: exampleProblemFiles_def split: PddlFile.splits if_splits)

subsection \<open>The files of a pass\<close>

text \<open>
  C2 asks for exactly one file of each kind per pass, and for every kind in each pass. A pass
  over a workspace with two dirty unknown files, a dirty domain, a dirty problem and a dirty
  plan: both unknown files are Validated after the pass, the parser is started once, for the
  domain with its problem, the dirty plan is not looked at (it keeps the status Parsed), and
  no further pass is scheduled.
\<close>

theorem validateAllDirty_two_unknowns_one_pass:
  "getAllFilesIf exampleWorkspace (\<lambda>f. isUnknownPddl f \<and> getStatus f = Parsed)
     = [UnknownFile unknownWithText, UnknownFile unknownEmpty]
   \<and> getAllFilesIf exampleWorkspace (\<lambda>f. isPlan f \<and> getStatus f = Parsed)
     = [PlanFile examplePlan]
   \<and> \<not> isl (validateAllDirty exampleRange exampleFileName exampleProblemFiles
               exampleEnvironment (exampleRun exampleWorkspace))
   \<and> allFiles (pddlWorkspace (self (projr
         (validateAllDirty exampleRange exampleFileName exampleProblemFiles
            exampleEnvironment (exampleRun exampleWorkspace)))))
     = [UnknownFile (unknownWithText\<lparr>status := Validated\<rparr>),
        PlanFile examplePlan,
        DomainFile (exampleDomain\<lparr>status := Validating\<rparr>),
        ProblemFile (exampleProblem\<lparr>status := Validating\<rparr>),
        UnknownFile (unknownEmpty\<lparr>status := Validated\<rparr>)]
   \<and> effects (projr
         (validateAllDirty exampleRange exampleFileName exampleProblemFiles
            exampleEnvironment (exampleRun exampleWorkspace)))
     = [ValidatorValidate (ValidatorExecutable ''/opt/pddl/parser'' None None)
          ''file:///w/rover.pddl'' [''file:///w/rover1.pddl''] False]
   \<and> pending (timerTable (projr
         (validateAllDirty exampleRange exampleFileName exampleProblemFiles
            exampleEnvironment (exampleRun exampleWorkspace))))
     = []"
  by code_simp

text \<open>
  C2 (amended): a pass of \<open>validateAllDirty\<close> over a workspace whose files have distinct
  URIs first validates every dirty unknown file (status Parsed becomes Validated, every other
  file stays as it is, no timer is set and nothing is started). Then, if there is a dirty
  domain, the pass is \<open>validatePddlDocument\<close> on the first one with the flag "more than one
  dirty domain" and ends there; as long as the problems of that domain are files of the
  workspace, the plans are after the pass what they were before. Otherwise the pass is
  \<open>validatePddlDocument\<close> on the first dirty problem, if any, and then \<open>validatePlan\<close> on the
  first dirty plan, if any, each with the flag "more than one dirty file of this kind"; the
  dirty plans are those of the beginning of the pass. The flag schedules the further pass
  when the validation reports success: the success callback with a set flag leaves exactly
  one timer, due after the configured delay, and without the flag it leaves the timers as
  they are; so does \<open>validatePlan\<close> when the validator is configured and the run of the plan
  validation ends in its success callback.
\<close>

theorem validateAllDirty_pass:
  assumes "distinct (map fileUriOf (allFiles (pddlWorkspace (self r))))"
    and "r1 = r\<lparr>self := foldl (validateUnknownFile cr) (self r)
                  (getAllFilesIf (pddlWorkspace (self r))
                     (\<lambda>f. isUnknownPddl f \<and> getStatus f = Parsed))\<rparr>"
  shows
    "allFiles (pddlWorkspace (self r1))
       = map (\<lambda>g. if isUnknownPddl g \<and> getStatus g = Parsed then setStatus Validated g else g)
           (allFiles (pddlWorkspace (self r)))
     \<and> timerTable r1 = timerTable r \<and> effects r1 = effects r
     \<and> (\<forall>d ds.
           getAllFilesIf (pddlWorkspace (self r)) (\<lambda>f. isDomain f \<and> getStatus f = Parsed) = d # ds
           \<longrightarrow> validateAllDirty cr gfn gpf env r
                 = validatePddlDocument cr gfn gpf env d (ds \<noteq> []) r1)
     \<and> (getAllFilesIf (pddlWorkspace (self r)) (\<lambda>f. isDomain f \<and> getStatus f = Parsed) = []
           \<longrightarrow> validateAllDirty cr gfn gpf env r
                 = (case (case getAllFilesIf (pddlWorkspace (self r))
                                 (\<lambda>f. isProblem f \<and> getStatus f = Parsed) of
                            [] \<Rightarrow> Inr r1
                          | q # qs \<Rightarrow> validatePddlDocument cr gfn gpf env q (qs \<noteq> []) r1) of
                      Inl e \<Rightarrow> Inl e
                    | Inr r2 \<Rightarrow>
                        (case getAllFilesIf (pddlWorkspace (self r))
                                (\<lambda>f. isPlan f \<and> getStatus f = Parsed) of
                           PlanFile l # ls \<Rightarrow> Inr (validatePlan env l (ls \<noteq> []) r2)
                         | other \<Rightarrow> Inr r2)))
     \<and> (\<forall>d ds r'.
           getAllFilesIf (pddlWorkspace (self r)) (\<lambda>f. isDomain f \<and> getStatus f = Parsed)
             = DomainFile d # ds
           \<and> (\<forall>p\<in>set (gpf (pddlWorkspace (self r1)) d).
                 ProblemFile p \<in> set (allFiles (pddlWorkspace (self r1))))
           \<and> validateAllDirty cr gfn gpf env r = Inr r'
           \<longrightarrow> filter isPlan (allFiles (pddlWorkspace (self r')))
                 = filter isPlan (allFiles (pddlWorkspace (self r))))
     \<and> (\<forall>now flag diags s.
           (\<forall>x\<in>set (pending (timerTable s)). timeout (self s) = Some (fst x))
           \<longrightarrow> pending (timerTable (validationSucceeded now flag diags s))
                 = (if flag
                    then [(nextHandle (timerTable s), now + timerDelayInSeconds (self s) * 1000)]
                    else pending (timerTable s)))
     \<and> (\<forall>l flag s outcome diags.
           validatorPath env \<noteq> []
           \<and> validatePlanAndReportDiagnostics
                 (pddlWorkspace (setFileStatus (fileUri l) Validating (self s)))
                 (spawnSyncReturns env) (l\<lparr>status := Validating\<rparr>)
               = Inr (outcome, [OnSuccess diags])
           \<and> (\<forall>x\<in>set (pending (timerTable s)). timeout (self s) = Some (fst x))
           \<longrightarrow> pending (timerTable (validatePlan env l flag s))
                 = (if flag
                    then [(nextHandle (timerTable s),
                           clockAfterSpawn env + timerDelayInSeconds (self s) * 1000)]
                    else pending (timerTable s)))"
proof -
  let ?ws = "pddlWorkspace (self r)"
  let ?ws1 = "pddlWorkspace (self r1)"
  let ?h = "\<lambda>g. if isUnknownPddl g \<and> getStatus g = Parsed then setStatus Validated g else g"
  let ?D = "getAllFilesIf ?ws (\<lambda>f. isDomain f \<and> getStatus f = Parsed)"
  let ?P = "getAllFilesIf ?ws (\<lambda>f. isProblem f \<and> getStatus f = Parsed)"
  let ?L = "getAllFilesIf ?ws (\<lambda>f. isPlan f \<and> getStatus f = Parsed)"
  have self1: "self r1 = foldl (validateUnknownFile cr) (self r)
                  (getAllFilesIf ?ws (\<lambda>f. isUnknownPddl f \<and> getStatus f = Parsed))"
    unfolding assms(2) by simp
  have files1: "allFiles ?ws1 = map ?h (allFiles ?ws)"
    unfolding self1 by (rule validateAllDirty_unknowns [OF assms(1)])
  have tt: "timerTable r1 = timerTable r" and ee: "effects r1 = effects r"
    unfolding assms(2) by simp_all
  have D1: "getAllFilesIf ?ws1 (\<lambda>f. isDomain f \<and> getStatus f = Parsed) = ?D"
    unfolding getAllFilesIf_def files1
    by (rule dirty_filter_unchanged) (simp_all add: kinds_exclusive)
  have P1: "getAllFilesIf ?ws1 (\<lambda>f. isProblem f \<and> getStatus f = Parsed) = ?P"
    unfolding getAllFilesIf_def files1
    by (rule dirty_filter_unchanged) (simp_all add: kinds_exclusive)
  have plans1: "filter isPlan (allFiles ?ws1) = filter isPlan (allFiles ?ws)"
    unfolding files1 by (rule plans_unknown_tier)
  have "map fileUriOf (allFiles ?ws1) = map fileUriOf (allFiles ?ws)"
    unfolding files1 by simp
  with assms(1) have dist1: "distinct (map fileUriOf (allFiles ?ws1))" by simp
  note unf = validateAllDirty_unfold [OF assms(2) D1 P1, of gfn gpf env]
  have dom: "validateAllDirty cr gfn gpf env r = validatePddlDocument cr gfn gpf env d (ds \<noteq> []) r1"
    if "?D = d # ds" for d ds
    unfolding unf that by simp
  have problemStep: "filter isPlan (allFiles (pddlWorkspace (self r2))) = filter isPlan (allFiles ?ws)"
    if "(case ?P of [] \<Rightarrow> Inr r1
         | q # qs \<Rightarrow> validatePddlDocument cr gfn gpf env q (qs \<noteq> []) r1) = Inr r2" for r2
  proof (cases ?P)
    case Nil
    with that have "r2 = r1" by simp
    with plans1 show ?thesis by simp
  next
    case (Cons q qs)
    then have "q \<in> set (getAllFilesIf ?ws1 (\<lambda>f. isProblem f \<and> getStatus f = Parsed))"
      unfolding P1 by simp
    then have mem: "q \<in> set (allFiles ?ws1)" and isP: "isProblem q"
      by (simp_all add: getAllFilesIf_def)
    from isP obtain q' where q': "q = ProblemFile q'" by (cases q) simp_all
    from that Cons have "validatePddlDocument cr gfn gpf env (ProblemFile q') (qs \<noteq> []) r1 = Inr r2"
      by (simp add: q')
    from plans_validatePddlDocument_problem [OF dist1 mem [unfolded q'] this] plans1
    show ?thesis by simp
  qed
  have nodom: "validateAllDirty cr gfn gpf env r
                 = (case (case ?P of
                            [] \<Rightarrow> Inr r1
                          | q # qs \<Rightarrow> validatePddlDocument cr gfn gpf env q (qs \<noteq> []) r1) of
                      Inl e \<Rightarrow> Inl e
                    | Inr r2 \<Rightarrow>
                        (case ?L of
                           PlanFile l # ls \<Rightarrow> Inr (validatePlan env l (ls \<noteq> []) r2)
                         | other \<Rightarrow> Inr r2))"
    if "?D = []"
  proof -
    let ?step = "case ?P of
                   [] \<Rightarrow> Inr r1
                 | q # qs \<Rightarrow> validatePddlDocument cr gfn gpf env q (qs \<noteq> []) r1"
    have step: "(case ?P of
                   firstDirtyProblem # otherProblems \<Rightarrow>
                     validatePddlDocument cr gfn gpf env firstDirtyProblem (length ?P > 1) r1
                 | [] \<Rightarrow> Inr r1) = ?step"
      by (cases ?P) simp_all
    show ?thesis
    proof (cases ?step)
      case (Inl e)
      then show ?thesis unfolding unf that step by simp
    next
      case (Inr r2)
      from problemStep [OF Inr]
      have L2: "getAllFilesIf (pddlWorkspace (self r2)) (\<lambda>f. isPlan f \<and> getStatus f = Parsed) = ?L"
        unfolding dirty_plans_as_filter by simp
      have "(case ?L of
               PlanFile firstDirtyPlan # otherPlans \<Rightarrow>
                 Inr (validatePlan env firstDirtyPlan (length ?L > 1) r2)
             | other \<Rightarrow> Inr r2)
            = (case ?L of
                 PlanFile l # ls \<Rightarrow> Inr (validatePlan env l (ls \<noteq> []) r2)
               | other \<Rightarrow> Inr r2)"
        by (cases ?L) (simp_all split: PddlFile.splits)
      moreover have "validateAllDirty cr gfn gpf env r
              = (case getAllFilesIf (pddlWorkspace (self r2))
                        (\<lambda>f. isPlan f \<and> getStatus f = Parsed) of
                   PlanFile firstDirtyPlan # otherPlans \<Rightarrow>
                     Inr (validatePlan env firstDirtyPlan
                            (length (getAllFilesIf (pddlWorkspace (self r2))
                                       (\<lambda>f. isPlan f \<and> getStatus f = Parsed)) > 1) r2)
                 | other \<Rightarrow> Inr r2)"
        unfolding unf that step Inr by simp
      ultimately show ?thesis unfolding L2 Inr by simp
    qed
  qed
  have domplans: "filter isPlan (allFiles (pddlWorkspace (self r'))) = filter isPlan (allFiles ?ws)"
    if "?D = DomainFile d # ds
        \<and> (\<forall>p\<in>set (gpf ?ws1 d). ProblemFile p \<in> set (allFiles ?ws1))
        \<and> validateAllDirty cr gfn gpf env r = Inr r'" for d ds r'
  proof -
    from that have D: "?D = DomainFile d # ds"
      and G: "\<forall>p\<in>set (gpf ?ws1 d). ProblemFile p \<in> set (allFiles ?ws1)"
      and res: "validateAllDirty cr gfn gpf env r = Inr r'" by simp_all
    from res dom [OF D]
    have v: "validateDomainAndProblems env d (gpf ?ws1 d) (ds \<noteq> []) r1 = Inr r'"
      by (simp add: validatePddlDocument_def)
    from D have "DomainFile d \<in> set (getAllFilesIf ?ws1 (\<lambda>f. isDomain f \<and> getStatus f = Parsed))"
      unfolding D1 by simp
    then have mem: "DomainFile d \<in> set (allFiles ?ws1)" by (simp add: getAllFilesIf_def)
    have "\<not> isPlan (DomainFile d)" by simp
    from distinct_not_plan_uri [OF dist1 mem this]
    have nd: "\<forall>f\<in>set (allFiles ?ws1). isPlan f \<longrightarrow> fileUriOf f \<noteq> fileUri d" by simp
    have np: "\<forall>p\<in>set (gpf ?ws1 d). \<forall>f\<in>set (allFiles ?ws1). isPlan f \<longrightarrow> fileUriOf f \<noteq> fileUri p"
    proof
      fix p assume "p \<in> set (gpf ?ws1 d)"
      with G have m: "ProblemFile p \<in> set (allFiles ?ws1)" by (rule bspec)
      have "\<not> isPlan (ProblemFile p)" by simp
      from distinct_not_plan_uri [OF dist1 m this]
      show "\<forall>f\<in>set (allFiles ?ws1). isPlan f \<longrightarrow> fileUriOf f \<noteq> fileUri p" by simp
    qed
    from plans_validateDomainAndProblems [OF v nd np] plans1 show ?thesis by simp
  qed
  have resched: "pending (timerTable (validationSucceeded now flag diags s))
                 = (if flag
                    then [(nextHandle (timerTable s), now + timerDelayInSeconds (self s) * 1000)]
                    else pending (timerTable s))"
    if "\<forall>x\<in>set (pending (timerTable s)). timeout (self s) = Some (fst x)" for now flag diags s
    using that by (rule pending_validationSucceeded)
  have plan: "pending (timerTable (validatePlan env l flag s))
                 = (if flag
                    then [(nextHandle (timerTable s),
                           clockAfterSpawn env + timerDelayInSeconds (self s) * 1000)]
                    else pending (timerTable s))"
    if "validatorPath env \<noteq> []
        \<and> validatePlanAndReportDiagnostics
              (pddlWorkspace (setFileStatus (fileUri l) Validating (self s)))
              (spawnSyncReturns env) (l\<lparr>status := Validating\<rparr>)
            = Inr (outcome, [OnSuccess diags])
        \<and> (\<forall>x\<in>set (pending (timerTable s)). timeout (self s) = Some (fst x))"
    for l flag s outcome diags
  proof -
    let ?s1 = "s\<lparr>self := setFileStatus (fileUri l) Validating (self s)\<rparr>"
    from that have eq: "validatePlan env l flag s
                          = validationSucceeded (clockAfterSpawn env) flag diags ?s1"
      by (intro validatePlan_succeeded) simp_all
    from that have "\<forall>x\<in>set (pending (timerTable ?s1)). timeout (self ?s1) = Some (fst x)"
      by (simp add: setFileStatus_def)
    from pending_validationSucceeded [OF this, of "clockAfterSpawn env" flag diags]
    have "pending (timerTable (validationSucceeded (clockAfterSpawn env) flag diags ?s1))
            = (if flag
               then [(nextHandle (timerTable s),
                      clockAfterSpawn env + timerDelayInSeconds (self ?s1) * 1000)]
               else pending (timerTable s))"
      by simp
    moreover have "timerDelayInSeconds (self ?s1) = timerDelayInSeconds (self s)"
      by (rule timerDelayInSeconds_cong) (simp add: setFileStatus_def)
    ultimately show ?thesis unfolding eq by simp
  qed
  show ?thesis
    apply (intro conjI allI impI)
           apply (rule files1)
          apply (rule tt)
         apply (rule ee)
        apply (erule dom)
       apply (erule nodom)
      apply (erule domplans)
     apply (erule resched)
    apply (erule plan)
    done
qed

theorem validateAllDirty_pass_witness:
  "distinct (map fileUriOf (allFiles (pddlWorkspace (self (exampleRun exampleWorkspace)))))
   \<and> getAllFilesIf (pddlWorkspace (self (exampleRun exampleWorkspace)))
         (\<lambda>f. isDomain f \<and> getStatus f = Parsed) = [DomainFile exampleDomain]
   \<and> allFiles (pddlWorkspace (self ((exampleRun exampleWorkspace)
         \<lparr>self := foldl (validateUnknownFile exampleRange) (self (exampleRun exampleWorkspace))
                    (getAllFilesIf (pddlWorkspace (self (exampleRun exampleWorkspace)))
                       (\<lambda>f. isUnknownPddl f \<and> getStatus f = Parsed))\<rparr>)))
       = [UnknownFile (unknownWithText\<lparr>status := Validated\<rparr>), PlanFile examplePlan,
          DomainFile exampleDomain, ProblemFile exampleProblem,
          UnknownFile (unknownEmpty\<lparr>status := Validated\<rparr>)]
   \<and> validateAllDirty exampleRange exampleFileName exampleProblemFiles exampleEnvironment
         (exampleRun exampleWorkspace)
       = validatePddlDocument exampleRange exampleFileName exampleProblemFiles exampleEnvironment
           (DomainFile exampleDomain) False
           ((exampleRun exampleWorkspace)
              \<lparr>self := foldl (validateUnknownFile exampleRange) (self (exampleRun exampleWorkspace))
                         (getAllFilesIf (pddlWorkspace (self (exampleRun exampleWorkspace)))
                            (\<lambda>f. isUnknownPddl f \<and> getStatus f = Parsed))\<rparr>)
   \<and> filter isPlan (allFiles (pddlWorkspace (self (projr
         (validateAllDirty exampleRange exampleFileName exampleProblemFiles exampleEnvironment
            (exampleRun exampleWorkspace))))))
       = [PlanFile examplePlan]
   \<and> distinct (map fileUriOf (allFiles (pddlWorkspace (self (exampleRun noDomainWorkspace)))))
   \<and> getAllFilesIf (pddlWorkspace (self (exampleRun noDomainWorkspace)))
         (\<lambda>f. isDomain f \<and> getStatus f = Parsed) = []
   \<and> allFiles (pddlWorkspace (self (projr
         (validateAllDirty exampleRange exampleFileName exampleProblemFiles exampleEnvironment
            (exampleRun noDomainWorkspace)))))
       = [PlanFile (examplePlan\<lparr>status := Validating\<rparr>),
          ProblemFile (exampleProblem\<lparr>status := Validated\<rparr>)]
   \<and> pending (timerTable (validationSucceeded 9000 True [] (exampleRun exampleWorkspace)))
       = [(0, 12000)]
   \<and> pending (timerTable (validationSucceeded 9000 False [] (exampleRun exampleWorkspace)))
       = []
   \<and> validatePlanAndReportDiagnostics
         (pddlWorkspace (setFileStatus (fileUri examplePlan) Validating
                           (self (exampleRun exampleWorkspace))))
         (spawnSyncReturns exampleEnvironment) (examplePlan\<lparr>status := Validating\<rparr>)
       = Inr (valid (examplePlan\<lparr>status := Validating\<rparr>),
              [OnSuccess [(''file:///w/rover.plan'', [])]])
   \<and> pending (timerTable (validatePlan exampleEnvironment examplePlan True
                              (exampleRun exampleWorkspace)))
       = [(0, 11200)]"
proof -
  let ?run = "exampleRun exampleWorkspace"
  let ?run1 = "?run\<lparr>self := foldl (validateUnknownFile exampleRange) (self ?run)
                         (getAllFilesIf (pddlWorkspace (self ?run))
                            (\<lambda>f. isUnknownPddl f \<and> getStatus f = Parsed))\<rparr>"
  let ?other = "exampleRun noDomainWorkspace"
  let ?other1 = "?other\<lparr>self := foldl (validateUnknownFile exampleRange) (self ?other)
                         (getAllFilesIf (pddlWorkspace (self ?other))
                            (\<lambda>f. isUnknownPddl f \<and> getStatus f = Parsed))\<rparr>"
  have fs: "allFiles (pddlWorkspace (self ?run))
              = [UnknownFile unknownWithText, PlanFile examplePlan, DomainFile exampleDomain,
                 ProblemFile exampleProblem, UnknownFile unknownEmpty]"
    by (simp add: exampleRun_def diagnosticsOf_def exampleWorkspace_def allFiles_def)
  have gs: "allFiles (pddlWorkspace (self ?other))
              = [PlanFile examplePlan, ProblemFile exampleProblem]"
    by (simp add: exampleRun_def diagnosticsOf_def noDomainWorkspace_def allFiles_def)
  have st: "status unknownWithText = Parsed" "status unknownEmpty = Parsed"
    "status exampleDomain = Parsed" "status exampleProblem = Parsed" "status examplePlan = Parsed"
    by (simp_all add: unknownWithText_def unknownEmpty_def exampleDomain_def exampleProblem_def
        examplePlan_def)
  have d1: "distinct (map fileUriOf (allFiles (pddlWorkspace (self ?run))))"
    unfolding fs
    by (simp add: unknownWithText_def unknownEmpty_def exampleDomain_def exampleProblem_def
        examplePlan_def)
  have d2: "distinct (map fileUriOf (allFiles (pddlWorkspace (self ?other))))"
    unfolding gs by (simp add: exampleProblem_def examplePlan_def)
  note T1 = validateAllDirty_pass [where r = ?run and cr = exampleRange and gfn = exampleFileName
      and gpf = exampleProblemFiles and env = exampleEnvironment, OF d1 refl]
  note T2 = validateAllDirty_pass [where r = ?other and cr = exampleRange and gfn = exampleFileName
      and gpf = exampleProblemFiles and env = exampleEnvironment, OF d2 refl]
  have dom1: "getAllFilesIf (pddlWorkspace (self ?run)) (\<lambda>f. isDomain f \<and> getStatus f = Parsed)
                = [DomainFile exampleDomain]"
    unfolding getAllFilesIf_def fs by (simp add: st)
  have dom2: "getAllFilesIf (pddlWorkspace (self ?other)) (\<lambda>f. isDomain f \<and> getStatus f = Parsed)
                = []"
    unfolding getAllFilesIf_def gs by simp
  have a: "allFiles (pddlWorkspace (self ?run1))
       = [UnknownFile (unknownWithText\<lparr>status := Validated\<rparr>), PlanFile examplePlan,
          DomainFile exampleDomain, ProblemFile exampleProblem,
          UnknownFile (unknownEmpty\<lparr>status := Validated\<rparr>)]"
    unfolding T1 [THEN conjunct1] fs by (simp add: st)
  from T1 [THEN conjunct2, THEN conjunct2, THEN conjunct2, THEN conjunct1, rule_format, OF dom1]
  have b: "validateAllDirty exampleRange exampleFileName exampleProblemFiles exampleEnvironment ?run
       = validatePddlDocument exampleRange exampleFileName exampleProblemFiles exampleEnvironment
           (DomainFile exampleDomain) False ?run1"
    by simp
  have "\<not> isl (validateAllDirty exampleRange exampleFileName exampleProblemFiles
                  exampleEnvironment ?run)"
    by code_simp
  then have ok: "validateAllDirty exampleRange exampleFileName exampleProblemFiles
                   exampleEnvironment ?run
       = Inr (projr (validateAllDirty exampleRange exampleFileName exampleProblemFiles
                       exampleEnvironment ?run))"
    by simp
  have G: "\<forall>p\<in>set (exampleProblemFiles (pddlWorkspace (self ?run1)) exampleDomain).
             ProblemFile p \<in> set (allFiles (pddlWorkspace (self ?run1)))"
    by (rule ballI) (rule exampleProblemFiles_open)
  have pl: "filter isPlan (allFiles (pddlWorkspace (self ?run))) = [PlanFile examplePlan]"
    unfolding fs by simp
  from dom1 G ok
  have h6: "getAllFilesIf (pddlWorkspace (self ?run)) (\<lambda>f. isDomain f \<and> getStatus f = Parsed)
              = DomainFile exampleDomain # []
            \<and> (\<forall>p\<in>set (exampleProblemFiles (pddlWorkspace (self ?run1)) exampleDomain).
                  ProblemFile p \<in> set (allFiles (pddlWorkspace (self ?run1))))
            \<and> validateAllDirty exampleRange exampleFileName exampleProblemFiles
                  exampleEnvironment ?run
                = Inr (projr (validateAllDirty exampleRange exampleFileName exampleProblemFiles
                         exampleEnvironment ?run))"
    by (intro conjI)
  from T1 [THEN conjunct2, THEN conjunct2, THEN conjunct2, THEN conjunct2, THEN conjunct2,
      THEN conjunct1, rule_format, OF h6]
  have c: "filter isPlan (allFiles (pddlWorkspace (self (projr
         (validateAllDirty exampleRange exampleFileName exampleProblemFiles exampleEnvironment
            ?run))))) = [PlanFile examplePlan]"
    unfolding pl .
  note eq2 = T2 [THEN conjunct2, THEN conjunct2, THEN conjunct2, THEN conjunct2, THEN conjunct1,
      rule_format, OF dom2]
  have e: "allFiles (pddlWorkspace (self (projr
         (validateAllDirty exampleRange exampleFileName exampleProblemFiles exampleEnvironment
            ?other))))
       = [PlanFile (examplePlan\<lparr>status := Validating\<rparr>),
          ProblemFile (exampleProblem\<lparr>status := Validated\<rparr>)]"
    unfolding eq2 by code_simp
  have slot: "\<forall>x\<in>set (pending (timerTable ?run)). timeout (self ?run) = Some (fst x)"
    by (simp add: exampleRun_def)
  have delay: "timerDelayInSeconds (self ?run) = 3"
    by (simp add: timerDelayInSeconds_def exampleRun_def diagnosticsOf_def exampleSettings_def
        defaultTimerDelayInSeconds_def)
  have nh: "nextHandle (timerTable ?run) = 0" "pending (timerTable ?run) = []"
    by (simp_all add: exampleRun_def)
  note R = T1 [THEN conjunct2, THEN conjunct2, THEN conjunct2, THEN conjunct2, THEN conjunct2,
      THEN conjunct2, THEN conjunct1, THEN spec, THEN spec, THEN spec, THEN spec, THEN mp,
      OF slot]
  have f: "pending (timerTable (validationSucceeded 9000 True [] ?run)) = [(0, 12000)]"
    unfolding R by (simp add: nh delay)
  have g: "pending (timerTable (validationSucceeded 9000 False [] ?run)) = []"
    unfolding R by (simp add: nh)
  have vp: "validatorPath exampleEnvironment \<noteq> []" by (simp add: exampleEnvironment_def)
  have run: "validatePlanAndReportDiagnostics
         (pddlWorkspace (setFileStatus (fileUri examplePlan) Validating (self ?run)))
         (spawnSyncReturns exampleEnvironment) (examplePlan\<lparr>status := Validating\<rparr>)
       = Inr (valid (examplePlan\<lparr>status := Validating\<rparr>),
              [OnSuccess [(''file:///w/rover.plan'', [])]])"
    by code_simp
  from vp run slot
  have h8: "validatorPath exampleEnvironment \<noteq> []
        \<and> validatePlanAndReportDiagnostics
              (pddlWorkspace (setFileStatus (fileUri examplePlan) Validating (self ?run)))
              (spawnSyncReturns exampleEnvironment) (examplePlan\<lparr>status := Validating\<rparr>)
            = Inr (valid (examplePlan\<lparr>status := Validating\<rparr>),
                   [OnSuccess [(''file:///w/rover.plan'', [])]])
        \<and> (\<forall>x\<in>set (pending (timerTable ?run)). timeout (self ?run) = Some (fst x))"
    by (intro conjI)
  have ck: "clockAfterSpawn exampleEnvironment = 8200" by (simp add: exampleEnvironment_def)
  from T1 [THEN conjunct2, THEN conjunct2, THEN conjunct2, THEN conjunct2, THEN conjunct2,
      THEN conjunct2, THEN conjunct2, rule_format, OF h8, of True]
  have h: "pending (timerTable (validatePlan exampleEnvironment examplePlan True ?run))
       = [(0, 11200)]"
    by (simp add: nh delay ck)
  show ?thesis
    apply (intro conjI)
              apply (rule d1)
             apply (rule dom1)
            apply (rule a)
           apply (rule b)
          apply (rule c)
         apply (rule d2)
        apply (rule dom2)
       apply (rule e)
      apply (rule f)
     apply (rule g)
    apply (rule run)
    apply (rule h)
    done
qed

section \<open>Properties of the type-object index\<close>

lemma addObject_idem: "addObject obj (addObject obj x) = addObject obj x"
  by (simp add: addObject_def)

lemma addObject_member: "obj \<in> set (objects (addObject obj x))"
  by (simp add: addObject_def)

lemma addObject_mono: "o' \<in> set (objects x) \<Longrightarrow> o' \<in> set (objects (addObject obj x))"
  by (simp add: addObject_def)

lemma addObject_fixed: "obj \<in> set (objects x) \<Longrightarrow> addObject obj x = x"
  by (simp add: addObject_def)

lemma map_of_upsert_same:
  "map_of (upsert k t f es) k
     = Some (f (case map_of es k of None \<Rightarrow> \<lparr>typeName = t, objects = []\<rparr> | Some x \<Rightarrow> x))"
  by (induction es) auto

lemma map_of_upsert_other: "k' \<noteq> k \<Longrightarrow> map_of (upsert k t f es) k' = map_of es k'"
  by (induction es) auto

lemma upsert_fixed: "map_of es k = Some x \<Longrightarrow> f x = x \<Longrightarrow> upsert k t f es = es"
  by (induction es) (auto split: if_splits)

lemma length_upsert_present: "map_of es k = Some x \<Longrightarrow> length (upsert k t f es) = length es"
  by (induction es) (auto split: if_splits)

lemma add_fixed:
  assumes "hasObject m t obj"
  shows "add t obj m = m"
proof -
  from assms obtain x where x: "map_of (typeNameToTypeObjectMap m) (toLowerCase t) = Some x"
    and mem: "obj \<in> set (objects x)"
    and own: "map_of (objectNameToTypeMap m) obj \<noteq> None"
    by (auto simp: hasObject_def getTypeCaseInsensitive_def getObjects_def split: option.splits)
  from mem have "addObject obj x = x" by (rule addObject_fixed)
  with x have "upsert (toLowerCase t) t (addObject obj) (typeNameToTypeObjectMap m)
                 = typeNameToTypeObjectMap m"
    by (rule upsert_fixed)
  with own show ?thesis by (auto simp: add_def)
qed

lemma owner_add: "map_of (objectNameToTypeMap (add t obj m)) obj \<noteq> None"
  by (auto simp: add_def map_add_def split: option.splits)

lemma owner_add_mono:
  "map_of (objectNameToTypeMap m) obj \<noteq> None
   \<Longrightarrow> map_of (objectNameToTypeMap (add t o' m)) obj \<noteq> None"
  by (auto simp: add_def map_add_def split: option.splits)

lemma getTypeCaseInsensitive_add:
  "getTypeCaseInsensitive (add t obj m) t
     = Some (addObject obj (case getTypeCaseInsensitive m t of
                              None \<Rightarrow> \<lparr>typeName = t, objects = []\<rparr>
                            | Some x \<Rightarrow> x))"
  by (simp add: getTypeCaseInsensitive_def add_def map_of_upsert_same)

lemma hasObject_add: "hasObject (add t obj m) t obj"
  using owner_add [of t obj m]
  by (simp add: hasObject_def getTypeCaseInsensitive_add getObjects_def addObject_member)

lemma hasObject_add_mono:
  assumes "hasObject m t obj"
  shows "hasObject (add t o' m) t obj"
proof -
  from assms obtain x where x: "getTypeCaseInsensitive m t = Some x"
    and mem: "obj \<in> set (objects x)"
    and own: "map_of (objectNameToTypeMap m) obj \<noteq> None"
    by (auto simp: hasObject_def getObjects_def split: option.splits)
  from mem have "obj \<in> set (objects (addObject o' x))" by (rule addObject_mono)
  with x owner_add_mono [OF own, of t o'] show ?thesis
    by (simp add: hasObject_def getTypeCaseInsensitive_add getObjects_def)
qed

lemma hasObject_addAll_mono:
  "hasObject m t obj \<Longrightarrow> hasObject (addAll t objs m) t obj"
proof (induction objs arbitrary: m)
  case Nil
  then show ?case by (simp add: addAll_def)
next
  case (Cons x objs)
  from Cons.IH [OF hasObject_add_mono [OF Cons.prems, of x]]
  show ?case by (simp add: addAll_def)
qed

lemma addAll_skip:
  "hasObject m t obj \<Longrightarrow> addAll t objs m = addAll t (filter (\<lambda>x. x \<noteq> obj) objs) m"
proof (induction objs arbitrary: m)
  case Nil
  then show ?case by simp
next
  case (Cons x objs)
  show ?case
  proof (cases "x = obj")
    case True
    with Cons.prems have "add t x m = m" by (simp add: add_fixed)
    with Cons.IH [OF Cons.prems] True show ?thesis by (simp add: addAll_def)
  next
    case False
    from Cons.IH [OF hasObject_add_mono [OF Cons.prems, of x]] False
    show ?thesis by (simp add: addAll_def)
  qed
qed

lemma hasObject_addAll: "obj \<in> set objs \<Longrightarrow> hasObject (addAll t objs m) t obj"
proof (induction objs arbitrary: m)
  case Nil
  then show ?case by simp
next
  case (Cons x objs)
  show ?case
  proof (cases "x = obj")
    case True
    have "hasObject (add t obj m) t obj" by (rule hasObject_add)
    then have "hasObject (addAll t objs (add t obj m)) t obj" by (rule hasObject_addAll_mono)
    with True show ?thesis by (simp add: addAll_def)
  next
    case False
    with Cons.prems have "obj \<in> set objs" by simp
    from Cons.IH [OF this, of "add t x m"] show ?thesis by (simp add: addAll_def)
  qed
qed

lemma addAll_fixed:
  "\<forall>obj\<in>set objs. hasObject m t obj \<Longrightarrow> addAll t objs m = m"
  by (induction objs) (simp_all add: addAll_def add_fixed)

text \<open>
  C7: for every TypeObjectMap, type and object, a second \<open>add\<close> of the same pair leaves
  the length of the map and the object list of the type as they were after the first
  \<open>add\<close>; indeed it leaves the whole map as it was. The same holds for \<open>addAll\<close>: a second
  \<open>addAll\<close> of the same list changes nothing, an \<open>add\<close> of an object of the list after
  the \<open>addAll\<close> changes nothing, and in an \<open>addAll\<close> after an \<open>add\<close> the occurrences of the
  object already added change nothing.
\<close>

theorem typeObjectMap_add_idempotent:
  "mapLength (add t obj (add t obj m)) = mapLength (add t obj m)
   \<and> map_option getObjects (getTypeCaseInsensitive (add t obj (add t obj m)) t)
       = map_option getObjects (getTypeCaseInsensitive (add t obj m) t)
   \<and> add t obj (add t obj m) = add t obj m
   \<and> addAll t objs (addAll t objs m) = addAll t objs m
   \<and> (obj \<in> set objs \<longrightarrow> add t obj (addAll t objs m) = addAll t objs m)
   \<and> addAll t objs (add t obj m) = addAll t (filter (\<lambda>x. x \<noteq> obj) objs) (add t obj m)"
proof -
  have twice: "add t obj (add t obj m) = add t obj m"
    by (rule add_fixed) (rule hasObject_add)
  have "\<forall>x\<in>set objs. hasObject (addAll t objs m) t x"
    by (simp add: hasObject_addAll)
  then have all_twice: "addAll t objs (addAll t objs m) = addAll t objs m"
    by (rule addAll_fixed)
  have after: "obj \<in> set objs \<longrightarrow> add t obj (addAll t objs m) = addAll t objs m"
    by (simp add: add_fixed hasObject_addAll)
  have skip: "addAll t objs (add t obj m)
                = addAll t (filter (\<lambda>x. x \<noteq> obj) objs) (add t obj m)"
    by (rule addAll_skip) (rule hasObject_add)
  have len: "mapLength (add t obj (add t obj m)) = mapLength (add t obj m)"
    unfolding twice ..
  have objs: "map_option getObjects (getTypeCaseInsensitive (add t obj (add t obj m)) t)
       = map_option getObjects (getTypeCaseInsensitive (add t obj m) t)"
    unfolding twice ..
  from len objs twice all_twice after skip show ?thesis by (intro conjI)
qed

theorem typeObjectMap_add_idempotent_witness:
  "''object1'' \<in> set [''object1'']
   \<and> mapLength (add ''type1'' ''object1'' (add ''type1'' ''object1'' newTypeObjectMap)) = 1
   \<and> map_option getObjects
        (getTypeCaseInsensitive
           (add ''type1'' ''object1'' (add ''type1'' ''object1'' newTypeObjectMap)) ''type1'')
       = Some [''object1'']
   \<and> map_option typeName
        (getTypeOf (add ''type1'' ''object1'' (add ''type1'' ''object1'' newTypeObjectMap))
           ''object1'')
       = Some ''type1''
   \<and> addAll ''type1'' [''object1''] (addAll ''type1'' [''object1''] newTypeObjectMap)
       = add ''type1'' ''object1'' newTypeObjectMap
   \<and> add ''type1'' ''object1'' (addAll ''type1'' [''object1''] newTypeObjectMap)
       = add ''type1'' ''object1'' newTypeObjectMap"
proof -
  let ?once = "add ''type1'' ''object1'' newTypeObjectMap"
  note T = typeObjectMap_add_idempotent
             [of "''type1''" "''object1''" newTypeObjectMap "[''object1'']"]
  have mem: "''object1'' \<in> set [''object1'']" by simp
  have all1: "addAll ''type1'' [''object1''] newTypeObjectMap = ?once"
    by (simp add: addAll_def)
  have len1: "mapLength ?once = 1" by code_simp
  have objs1: "map_option getObjects (getTypeCaseInsensitive ?once ''type1'') = Some [''object1'']"
    by code_simp
  have type1: "map_option typeName (getTypeOf ?once ''object1'') = Some ''type1''"
    by code_simp
  note twice = T [THEN conjunct2, THEN conjunct2, THEN conjunct1]
  note all_twice = T [THEN conjunct2, THEN conjunct2, THEN conjunct2, THEN conjunct1]
  note after = T [THEN conjunct2, THEN conjunct2, THEN conjunct2, THEN conjunct2,
      THEN conjunct1, rule_format, OF mem]
  have len2: "mapLength (add ''type1'' ''object1'' ?once) = 1"
    unfolding twice by (rule len1)
  have objs2: "map_option getObjects (getTypeCaseInsensitive (add ''type1'' ''object1'' ?once) ''type1'')
                 = Some [''object1'']"
    unfolding twice by (rule objs1)
  have type2: "map_option typeName (getTypeOf (add ''type1'' ''object1'' ?once) ''object1'')
                 = Some ''type1''"
    unfolding twice by (rule type1)
  have all2: "addAll ''type1'' [''object1''] (addAll ''type1'' [''object1''] newTypeObjectMap)
                = ?once"
    unfolding all_twice by (rule all1)
  have after2: "add ''type1'' ''object1'' (addAll ''type1'' [''object1''] newTypeObjectMap) = ?once"
    unfolding after by (rule all1)
  show ?thesis
    apply (intro conjI)
         apply (rule mem)
        apply (rule len2)
       apply (rule objs2)
      apply (rule type2)
     apply (rule all2)
    apply (rule after2)
    done
qed

end
